theory Spec2Isabelle
  imports Complex_Main "HOL-Library.AList" "HOL-Library.Multiset"
begin

section \<open>Feature vectors and the numeric library calls\<close>

text \<open>
  The program is \<^verbatim>\<open>Project/backend/backend.py\<close>. A feature vector is a
  one-dimensional numpy array of floats. Floating-point numbers are idealised as reals
  throughout: rounding, NaN and infinities are outside the model, and every place where
  numpy would produce NaN (a division by a zero norm) is named where it matters.
\<close>

type_synonym features = "real list"

text \<open>The exceptions that the modelled code can raise or catch.\<close>

datatype error = ValueError | UnpicklingError | IndexError

definition dot :: "features \<Rightarrow> features \<Rightarrow> real" where
  "dot a b = sum_list (map (\<lambda>(x, y). x * y) (zip a b))"

text \<open>\<^verbatim>\<open>np.linalg.norm\<close> of a one-dimensional array: the Euclidean norm.\<close>

definition linalg_norm :: "features \<Rightarrow> real" where
  "linalg_norm v = sqrt (sum_list (map (\<lambda>x. x * x) v))"

text \<open>
  Modelled from the spec: \<^verbatim>\<open>cosine_similarity\<close> is imported from scikit-learn and
  its code is not among the repository's sources. Section 4.4 of the spec gives the metric,
  \<^verbatim>\<open>cos(a,b) = dot(a,b) / (|a| * |b|)\<close>, which is \<open>cos_sim\<close>. (Where a norm is
  zero the library divides by one instead and returns 0; HOL's division by zero returns 0
  as well, so the two agree there.)
\<close>

definition cos_sim :: "features \<Rightarrow> features \<Rightarrow> real" where
  "cos_sim a b = dot a b / (linalg_norm a * linalg_norm b)"

text \<open>
  The call \<^verbatim>\<open>cosine_similarity([a], [b])[0][0]\<close> as the program makes it. An
  argument may be Python's \<^verbatim>\<open>None\<close> (\<open>None\<close> here). The library validates its
  arguments and raises \<^verbatim>\<open>ValueError\<close> when \<^verbatim>\<open>[a]\<close> is not a two-dimensional
  numeric array (as for \<^verbatim>\<open>[None]\<close>), when a row has no entries, or when the two
  rows differ in length.
\<close>

definition cosine_similarity :: "features option \<Rightarrow> features option \<Rightarrow> error + real" where
  "cosine_similarity x y =
     (case (x, y) of
        (Some a, Some b) \<Rightarrow>
          if a = [] \<or> length a \<noteq> length b then Inl ValueError else Inr (cos_sim a b)
      | _ \<Rightarrow> Inl ValueError)"

text \<open>
  Python's built-in \<^verbatim>\<open>max(iterable, key=...)\<close>: it walks the items from the first
  and replaces the candidate only by an item whose key is strictly greater, so the first
  maximal item wins. On an empty list it raises \<^verbatim>\<open>ValueError\<close>; the
  program calls it on non-empty lists only, so \<open>max_from\<close> takes the first item
  apart.
\<close>

fun max_from :: "('a \<Rightarrow> 'k::linorder) \<Rightarrow> 'a \<Rightarrow> 'a list \<Rightarrow> 'a" where
  "max_from key best [] = best"
| "max_from key best (x # xs) =
     (if key best < key x then max_from key x xs else max_from key best xs)"

text \<open>\<^verbatim>\<open>statistics.mean\<close> of a non-empty list.\<close>

definition mean :: "real list \<Rightarrow> real" where
  "mean xs = sum_list xs / real (length xs)"

section \<open>The recognizer: thresholds and comparisons\<close>

text \<open>The constants set in \<^verbatim>\<open>EnhancedCNNFaceRecognizer.__init__\<close>.\<close>

definition strict_threshold :: real where
  "strict_threshold = 0.75"

definition multi_photo_threshold :: real where
  "multi_photo_threshold = 0.70"

definition min_photos_for_training :: nat where
  "min_photos_for_training = 3"

text \<open>
  The dictionary built by \<^verbatim>\<open>extract_features_from_multiple_images\<close> and pickled by
  \<^verbatim>\<open>register\<close>, its four keys as fields.
\<close>

record training_data =
  ensemble_features :: features
  individual_features :: "features list"
  num_photos :: int
  training_quality :: real

text \<open>
  The loop of \<^verbatim>\<open>compare_features_advanced\<close> that fills
  \<^verbatim>\<open>individual_similarities\<close>; an exception of any call leaves the loop.
\<close>

fun individual_similarities :: "features list \<Rightarrow> features \<Rightarrow> error + real list" where
  "individual_similarities [] unknown = Inr []"
| "individual_similarities (f # fs) unknown =
     (case cosine_similarity (Some f) (Some unknown) of
        Inl e \<Rightarrow> Inl e
      | Inr similarity \<Rightarrow>
          (case individual_similarities fs unknown of
             Inl e \<Rightarrow> Inl e
           | Inr rest \<Rightarrow> Inr (similarity # rest)))"

text \<open>The body of the \<^verbatim>\<open>try\<close> block of \<^verbatim>\<open>compare_features_advanced\<close>.\<close>

definition advanced_scores :: "training_data \<Rightarrow> features \<Rightarrow> error + bool \<times> real" where
  "advanced_scores stored_data unknown =
     (case cosine_similarity (Some (ensemble_features stored_data)) (Some unknown) of
        Inl e \<Rightarrow> Inl e
      | Inr ensemble_similarity \<Rightarrow>
          (case individual_similarities (individual_features stored_data) unknown of
             Inl e \<Rightarrow> Inl e
           | Inr sims \<Rightarrow>
               (let best_individual_similarity =
                      (case sims of [] \<Rightarrow> 0 | s # rest \<Rightarrow> max_from (\<lambda>v. v) s rest);
                    avg_individual_similarity = (if sims = [] then 0 else mean sims);
                    quality_weight = min (training_quality stored_data) 1;
                    final_score =
                      (ensemble_similarity * 0.4 + best_individual_similarity * 0.3
                         + avg_individual_similarity * 0.3) * quality_weight;
                    threshold =
                      (if 3 \<le> num_photos stored_data then multi_photo_threshold
                       else strict_threshold)
                in Inr (threshold \<le> final_score, final_score))))"

text \<open>
  \<^verbatim>\<open>compare_features_advanced\<close>: the \<^verbatim>\<open>None\<close> test, then the
  \<^verbatim>\<open>try\<close> block, whose \<^verbatim>\<open>except Exception\<close> turns every exception into
  \<^verbatim>\<open>(False, 0.0)\<close>. The function therefore has no error result of its own.
\<close>

definition compare_features_advanced ::
    "training_data option \<Rightarrow> features option \<Rightarrow> bool \<times> real" where
  "compare_features_advanced stored_data unknown_features =
     (case (stored_data, unknown_features) of
        (Some sd, Some u) \<Rightarrow>
          (case advanced_scores sd u of Inl e \<Rightarrow> (False, 0) | Inr r \<Rightarrow> r)
      | _ \<Rightarrow> (False, 0))"

text \<open>
  \<^verbatim>\<open>compare_features_simple\<close>: no \<^verbatim>\<open>None\<close> test on the features; the default
  threshold is the strict one; again every exception becomes \<^verbatim>\<open>(False, 0.0)\<close>.
\<close>

definition compare_features_simple ::
    "features option \<Rightarrow> features option \<Rightarrow> real option \<Rightarrow> bool \<times> real" where
  "compare_features_simple features1 features2 threshold =
     (let thr = (case threshold of None \<Rightarrow> strict_threshold | Some t \<Rightarrow> t)
      in case cosine_similarity features1 features2 of
           Inl e \<Rightarrow> (False, 0)
         | Inr similarity \<Rightarrow> (thr \<le> similarity, similarity))"

section \<open>Face detection, selection and enrollment\<close>

text \<open>
  One entry of the list returned by \<^verbatim>\<open>detect_faces\<close>: the cropped pixels, the
  bounding box \<^verbatim>\<open>(x, y, width, height)\<close> and the detector's confidence. The pixel
  type is a parameter.
\<close>

record 'px face_region =
  face :: 'px
  bbox :: "int \<times> int \<times> int \<times> int"
  confidence :: real

text \<open>The key \<^verbatim>\<open>lambda x: x['bbox'][2] * x['bbox'][3]\<close>.\<close>

definition bbox_area :: "'px face_region \<Rightarrow> int" where
  "bbox_area x = (case bbox x of (x0, y0, width, height) \<Rightarrow> width * height)"

text \<open>
  The face detector (MediaPipe behind \<^verbatim>\<open>detect_faces\<close>) and the network behind
  \<^verbatim>\<open>extract_features\<close> are capabilities outside the program: the functions below
  take them as the parameters \<open>detect_faces\<close> and \<open>extract_features\<close>, the second
  returning \<open>None\<close> where the Python returns \<^verbatim>\<open>None\<close>.

  The loop of \<^verbatim>\<open>extract_features_from_multiple_images\<close> over the images, with its
  two variables \<^verbatim>\<open>all_features\<close> and \<^verbatim>\<open>valid_images\<close> as the accumulator.
\<close>

fun collect_features ::
    "('img \<Rightarrow> 'px face_region list) \<Rightarrow> ('px \<Rightarrow> features option) \<Rightarrow> 'img list
       \<Rightarrow> features list \<times> nat \<Rightarrow> features list \<times> nat" where
  "collect_features detect_faces extract_features [] acc = acc"
| "collect_features detect_faces extract_features (img # rest) (all_features, valid_images) =
     (case detect_faces img of
        [] \<Rightarrow> collect_features detect_faces extract_features rest (all_features, valid_images)
      | f # fs \<Rightarrow>
          (let largest_face = max_from bbox_area f fs
           in case extract_features (face largest_face) of
                Some feats \<Rightarrow>
                  collect_features detect_faces extract_features rest
                    (all_features @ [feats], valid_images + 1)
              | None \<Rightarrow>
                  collect_features detect_faces extract_features rest
                    (all_features, valid_images)))"

text \<open>
  What one image contributes to \<^verbatim>\<open>all_features\<close> in that loop (lines 121 to
  136): the features of its largest face, or nothing when no face is detected or the
  extraction fails.
\<close>

definition image_features ::
    "('img \<Rightarrow> 'px face_region list) \<Rightarrow> ('px \<Rightarrow> features option) \<Rightarrow> 'img
       \<Rightarrow> features option" where
  "image_features detect_faces extract_features img =
     (case detect_faces img of
        [] \<Rightarrow> None
      | f # fs \<Rightarrow> extract_features (face (max_from bbox_area f fs)))"

text \<open>
  \<^verbatim>\<open>np.mean(all_features, axis=0)\<close> on a list of one-dimensional arrays: the
  column-wise mean when all rows have one length, \<^verbatim>\<open>ValueError\<close> when they do not.
  The program calls it with at least two rows; numpy's answer for no rows (NaN) is not
  representable and is given as the error.
\<close>

definition np_mean_axis0 :: "features list \<Rightarrow> error + features" where
  "np_mean_axis0 rows =
     (case rows of
        [] \<Rightarrow> Inl ValueError
      | r # rs \<Rightarrow>
          if list_all (\<lambda>q. length q = length r) rs
          then Inr (map (\<lambda>j. sum_list (map (\<lambda>q. q ! j) rows) / real (length rows))
                        [0..<length r])
          else Inl ValueError)"

text \<open>
  \<^verbatim>\<open>extract_features_from_multiple_images\<close>. The function has no \<^verbatim>\<open>try\<close>: an
  exception of \<^verbatim>\<open>np.mean\<close> leaves it, which is the \<open>Inl\<close> result. Dividing by a
  zero norm gives NaN entries in numpy and zeros here.
\<close>

definition extract_features_from_multiple_images ::
    "('img \<Rightarrow> 'px face_region list) \<Rightarrow> ('px \<Rightarrow> features option) \<Rightarrow> 'img list
       \<Rightarrow> error + training_data option \<times> nat" where
  "extract_features_from_multiple_images detect_faces extract_features images =
     (case collect_features detect_faces extract_features images ([], 0) of
        (all_features, valid_images) \<Rightarrow>
          if length all_features < 2 then Inr (None, valid_images)
          else
            (case np_mean_axis0 all_features of
               Inl e \<Rightarrow> Inl e
             | Inr m \<Rightarrow>
                 Inr (Some \<lparr> ensemble_features = map (\<lambda>v. v / linalg_norm m) m,
                             individual_features = all_features,
                             num_photos = int (length all_features),
                             training_quality =
                               real (length all_features) / real (length images) \<rparr>,
                      valid_images)))"

section \<open>The gallery scan\<close>

text \<open>
  What \<^verbatim>\<open>pickle.load\<close> can return for a file of the gallery: the multi-photo
  dictionary (a dict with the key \<^verbatim>\<open>'ensemble_features'\<close>) or the old format, a bare
  feature vector. A file whose opening or unpickling raises is \<open>Garbage\<close>. (A pickle
  of any other shape, such as a dictionary that lacks one of the four keys, makes the
  comparison it is sent to raise and answer \<^verbatim>\<open>(False, 0.0)\<close>; such values are
  not part of the type.)
\<close>

datatype stored = NewFormat training_data | OldFormat features

datatype file_content = Garbage | Pickle stored

definition pickle_load :: "file_content \<Rightarrow> error + stored" where
  "pickle_load c = (case c of Garbage \<Rightarrow> Inl UnpicklingError | Pickle v \<Rightarrow> Inr v)"

text \<open>\<^verbatim>\<open>str.endswith\<close> and the slice \<^verbatim>\<open>file[:-7]\<close>.\<close>

definition endswith :: "string \<Rightarrow> string \<Rightarrow> bool" where
  "endswith s suffix =
     (length suffix \<le> length s \<and> drop (length s - length suffix) s = suffix)"

definition drop_last7 :: "string \<Rightarrow> string" where
  "drop_last7 s = take (length s - 7) s"

text \<open>
  The dispatch on the shape of the loaded value (lines 343 to 349): the advanced
  comparison for the dictionary with an ensemble, the simple one, with no threshold
  argument, for anything else.
\<close>

definition compare_stored :: "stored \<Rightarrow> features \<Rightarrow> bool \<times> real" where
  "compare_stored stored_data unknown_features =
     (case stored_data of
        NewFormat td \<Rightarrow> compare_features_advanced (Some td) (Some unknown_features)
      | OldFormat fv \<Rightarrow> compare_features_simple (Some fv) (Some unknown_features) None)"

text \<open>
  One round of the loop over \<^verbatim>\<open>os.listdir(PICKLES_DIR)\<close>; the state is the pair
  \<^verbatim>\<open>(best_match, best_score)\<close>. The directory is the list of its entries, name and
  content, in the order in which \<^verbatim>\<open>os.listdir\<close> gives them. An exception while
  opening or loading the file is caught and the loop continues.
\<close>

definition scan_step ::
    "features \<Rightarrow> string option \<times> real \<Rightarrow> string \<times> file_content \<Rightarrow> string option \<times> real" where
  "scan_step unknown_features st entry =
     (case (st, entry) of
        ((best_match, best_score), (file, content)) \<Rightarrow>
          if endswith file ''.pickle'' then
            (case pickle_load content of
               Inl e \<Rightarrow> (best_match, best_score)
             | Inr stored_data \<Rightarrow>
                 (case compare_stored stored_data unknown_features of
                    (is_match, score) \<Rightarrow>
                      if is_match \<and> best_score < score
                      then (Some (drop_last7 file), score)
                      else (best_match, best_score)))
          else (best_match, best_score))"

text \<open>
  What one directory entry offers to that loop: the identity key and the score when the
  file is a pickle that loads and whose comparison reports a match, nothing otherwise.
  The properties of the scan are stated with it.
\<close>

definition candidate :: "features \<Rightarrow> string \<times> file_content \<Rightarrow> (string \<times> real) option" where
  "candidate unknown_features entry =
     (case entry of
        (file, content) \<Rightarrow>
          if endswith file ''.pickle'' then
            (case pickle_load content of
               Inl e \<Rightarrow> None
             | Inr stored_data \<Rightarrow>
                 (case compare_stored stored_data unknown_features of
                    (is_match, score) \<Rightarrow>
                      if is_match then Some (drop_last7 file, score) else None))
          else None)"

text \<open>
  Lines 333 to 360 of \<^verbatim>\<open>recognize_user_enhanced\<close>: the scan and the result. The
  last line tests \<^verbatim>\<open>best_match\<close> for truth, and Python's empty string is false
  like \<^verbatim>\<open>None\<close>.
\<close>

definition gallery_scan :: "(string \<times> file_content) list \<Rightarrow> features \<Rightarrow> string" where
  "gallery_scan pickles unknown_features =
     (case foldl (scan_step unknown_features) (None, 0) pickles of
        (best_match, best_score) \<Rightarrow>
          (case best_match of
             None \<Rightarrow> ''unknown_person''
           | Some k \<Rightarrow> if k \<noteq> [] then k else ''unknown_person''))"

definition recognize_user_enhanced ::
    "('img \<Rightarrow> 'px face_region list) \<Rightarrow> ('px \<Rightarrow> features option)
       \<Rightarrow> (string \<times> file_content) list \<Rightarrow> 'img \<Rightarrow> string" where
  "recognize_user_enhanced detect_faces extract_features pickles img =
     (case detect_faces img of
        [] \<Rightarrow> ''no_persons_found''
      | f # fs \<Rightarrow>
          (let largest_face = max_from bbox_area f fs
           in case extract_features (face largest_face) of
                None \<Rightarrow> ''no_persons_found''
              | Some unknown_features \<Rightarrow> gallery_scan pickles unknown_features))"

section \<open>The stored state\<close>

text \<open>
  One row of \<^verbatim>\<open>users.csv\<close>, a field per column. The file itself is absent,
  present but not readable by \<^verbatim>\<open>pd.read_csv\<close> (empty or malformed, so that the
  call raises), or a table of rows.
\<close>

record user_row =
  col_user_id :: string
  col_name :: string
  col_email :: string
  col_phone :: string
  col_date_of_birth :: string
  col_gender :: string
  col_address :: string
  col_department :: string
  col_position :: string
  col_emergency_contact :: string
  col_emergency_phone :: string
  col_registration_date :: string
  col_last_login :: string
  col_login_count :: int

datatype csv_file = CsvMissing | CsvUnreadable | CsvTable "user_row list"

text \<open>
  The three places the program keeps its data in: the directory of pickles (the gallery),
  the directory of photos, and the CSV file. A directory is the list of its entries, file
  name and content. Opening a file for writing and removing an existing file always
  succeed in this model.
\<close>

record 'img filesystem =
  pickles_dir :: "(string \<times> file_content) list"
  photos_dir :: "(string \<times> 'img) list"
  users_csv :: csv_file

definition path_exists :: "string \<Rightarrow> (string \<times> 'a) list \<Rightarrow> bool" where
  "path_exists p dir = (p \<in> set (map fst dir))"

text \<open>\<^verbatim>\<open>str.lower\<close> and \<^verbatim>\<open>str.strip\<close>, on ASCII text.\<close>

definition lower_char :: "char \<Rightarrow> char" where
  "lower_char c =
     (if (65::nat) \<le> of_char c \<and> of_char c \<le> (90::nat)
      then char_of (of_char c + (32::nat)) else c)"

definition lower :: "string \<Rightarrow> string" where
  "lower s = map lower_char s"

definition py_isspace :: "char \<Rightarrow> bool" where
  "py_isspace c =
     (let n = (of_char c :: nat) in (9 \<le> n \<and> n \<le> 13) \<or> (28 \<le> n \<and> n \<le> 32))"

definition strip :: "string \<Rightarrow> string" where
  "strip s = rev (dropWhile py_isspace (rev (dropWhile py_isspace s)))"

text \<open>\<^verbatim>\<open>email_exists\<close>: an exception while reading the file is answered False.\<close>

definition email_exists :: "csv_file \<Rightarrow> string \<Rightarrow> bool" where
  "email_exists csv addr =
     (case csv of
        CsvTable rows \<Rightarrow> lower addr \<in> set (map (\<lambda>r. lower (col_email r)) rows)
      | CsvMissing \<Rightarrow> False
      | CsvUnreadable \<Rightarrow> False)"

text \<open>\<^verbatim>\<open>get_user_data\<close>: the first row with the given id, or \<^verbatim>\<open>None\<close>.\<close>

definition get_user_data :: "csv_file \<Rightarrow> string \<Rightarrow> user_row option" where
  "get_user_data csv uid =
     (case csv of
        CsvTable rows \<Rightarrow> find (\<lambda>r. col_user_id r = uid) rows
      | CsvMissing \<Rightarrow> None
      | CsvUnreadable \<Rightarrow> None)"

text \<open>
  The fields of the registration form, as \<^verbatim>\<open>data.get(key, '')\<close> reads them from
  the request, and the request itself, which adds the list of encoded images.
\<close>

record form =
  name :: string
  email :: string
  phone :: string
  dateOfBirth :: string
  gender :: string
  address :: string
  department :: string
  position :: string
  emergencyContact :: string
  emergencyPhone :: string

record 'raw request = form +
  images :: "'raw list"

text \<open>
  \<^verbatim>\<open>save_user_data\<close>: the new row is appended to the table; the result is the
  returned flag and the file afterwards. \<^verbatim>\<open>pd.read_csv\<close> raising on an unreadable
  file is caught and answered False. The time stamp is a parameter.
\<close>

definition save_user_data ::
    "form \<Rightarrow> string \<Rightarrow> string \<Rightarrow> csv_file \<Rightarrow> bool \<times> csv_file" where
  "save_user_data user_data uid now csv =
     (let new_user =
            \<lparr> col_user_id = uid,
              col_name = name user_data,
              col_email = strip (lower (email user_data)),
              col_phone = phone user_data,
              col_date_of_birth = dateOfBirth user_data,
              col_gender = gender user_data,
              col_address = address user_data,
              col_department = department user_data,
              col_position = position user_data,
              col_emergency_contact = emergencyContact user_data,
              col_emergency_phone = emergencyPhone user_data,
              col_registration_date = now,
              col_last_login = [],
              col_login_count = 0 \<rparr>
      in case csv of
           CsvTable rows \<Rightarrow> (True, CsvTable (rows @ [new_user]))
         | CsvMissing \<Rightarrow> (True, CsvTable [new_user])
         | CsvUnreadable \<Rightarrow> (False, CsvUnreadable))"

section \<open>Registration\<close>

text \<open>Python's \<^verbatim>\<open>str\<close> of a natural number, for the photo names.\<close>

fun str_nat :: "nat \<Rightarrow> string" where
  "str_nat n =
     (if n < 10 then [''0123456789'' ! n]
      else str_nat (n div 10) @ [''0123456789'' ! (n mod 10)])"

declare str_nat.simps [simp del]

definition pickle_name :: "string \<Rightarrow> string" where
  "pickle_name uid = uid @ ''.pickle''"

definition photo_name :: "string \<Rightarrow> nat \<Rightarrow> string" where
  "photo_name uid i = uid @ ''_'' @ str_nat i @ ''.jpg''"

definition first_photo_name :: "string \<Rightarrow> string" where
  "first_photo_name uid = uid @ ''.jpg''"

text \<open>
  The decoding loop of \<^verbatim>\<open>register\<close>: \<open>Inl\<close> is the early return with the
  one-based number of the image that did not decode.
\<close>

fun decode_images ::
    "('raw \<Rightarrow> 'img option) \<Rightarrow> 'raw list \<Rightarrow> nat \<Rightarrow> 'img list \<Rightarrow> nat + 'img list" where
  "decode_images decode_image [] i acc = Inr acc"
| "decode_images decode_image (img_data # rest) i acc =
     (case decode_image img_data of
        None \<Rightarrow> Inl (i + 1)
      | Some img \<Rightarrow> decode_images decode_image rest (i + 1) (acc @ [img]))"

text \<open>The loop that writes \<^verbatim>\<open>{user_id}_{i+1}.jpg\<close> for every image.\<close>

fun save_photos :: "string \<Rightarrow> 'img list \<Rightarrow> nat \<Rightarrow> (string \<times> 'img) list \<Rightarrow> (string \<times> 'img) list" where
  "save_photos uid [] i dir = dir"
| "save_photos uid (img # rest) i dir =
     save_photos uid rest (i + 1) (AList.update (photo_name uid (i + 1)) img dir)"

text \<open>
  The clean-up of \<^verbatim>\<open>register\<close> (lines 647 to 656). \<^verbatim>\<open>os.remove(pickle_path)\<close>
  is not guarded: on a missing file it raises, and the bare \<^verbatim>\<open>except\<close> skips the
  rest. The photo removals are guarded by \<^verbatim>\<open>os.path.exists\<close>.
\<close>

definition remove_if_exists :: "string \<Rightarrow> (string \<times> 'a) list \<Rightarrow> (string \<times> 'a) list" where
  "remove_if_exists p dir = (if path_exists p dir then AList.delete p dir else dir)"

definition cleanup :: "string \<Rightarrow> nat \<Rightarrow> 'img filesystem \<Rightarrow> 'img filesystem" where
  "cleanup uid n fs =
     (if path_exists (pickle_name uid) (pickles_dir fs) then
        (let fs1 = fs \<lparr> pickles_dir := AList.delete (pickle_name uid) (pickles_dir fs) \<rparr>;
             fs2 = fs1 \<lparr> photos_dir :=
                      fold (\<lambda>i dir. remove_if_exists (photo_name uid (i + 1)) dir) [0..<n]
                        (photos_dir fs1) \<rparr>
         in fs2 \<lparr> photos_dir := remove_if_exists (first_photo_name uid) (photos_dir fs2) \<rparr>)
      else fs)"

text \<open>What \<^verbatim>\<open>register\<close> answers: one constructor per message, with its values.\<close>

datatype response =
    NoImagesProvided
  | TooFewImages nat
  | EmailAlreadyExists
  | InvalidImageData nat
  | FaceAlreadyRegistered string
  | FeatureExtractionFailed nat nat
  | FailedToSaveUserData
  | Registered string string string nat nat real
  | ServerError error

text \<open>
  \<^verbatim>\<open>register\<close>. Beside the detector and the extractor it takes the image decoder,
  the eight characters cut from \<^verbatim>\<open>uuid.uuid4()\<close> and the time stamp as parameters,
  and the state before; it returns the response and the state after. An exception that
  no handler catches ends the request with the server's error response.
\<close>

definition register ::
    "('img \<Rightarrow> 'px face_region list) \<Rightarrow> ('px \<Rightarrow> features option) \<Rightarrow> ('raw \<Rightarrow> 'img option)
       \<Rightarrow> string \<Rightarrow> string \<Rightarrow> 'raw request \<Rightarrow> 'img filesystem
       \<Rightarrow> response \<times> 'img filesystem" where
  "register detect_faces extract_features decode_image user_id now data fs =
     (let images_data = images data;
          addr = lower (strip (email data))
      in
        if images_data = [] then (NoImagesProvided, fs)
        else if length images_data < 2 then (TooFewImages (length images_data), fs)
        else if addr \<noteq> [] \<and> email_exists (users_csv fs) addr then (EmailAlreadyExists, fs)
        else
          (case decode_images decode_image images_data 0 [] of
             Inl i \<Rightarrow> (InvalidImageData i, fs)
           | Inr imgs \<Rightarrow>
               (case imgs of
                  [] \<Rightarrow> (ServerError IndexError, fs)
                | first # others \<Rightarrow>
                    (let matched_user_id =
                           recognize_user_enhanced detect_faces extract_features
                             (pickles_dir fs) first
                     in
                       if matched_user_id \<noteq> ''no_persons_found''
                          \<and> matched_user_id \<noteq> ''unknown_person''
                       then
                         (FaceAlreadyRegistered
                            (case get_user_data (users_csv fs) matched_user_id of
                               Some row \<Rightarrow> col_name row
                             | None \<Rightarrow> matched_user_id),
                          fs)
                       else
                         (case extract_features_from_multiple_images
                                 detect_faces extract_features imgs of
                            Inl e \<Rightarrow> (ServerError e, fs)
                          | Inr (None, valid_images) \<Rightarrow>
                              (FeatureExtractionFailed valid_images (length imgs), fs)
                          | Inr (Some td, valid_images) \<Rightarrow>
                              (let fs1 = fs \<lparr> pickles_dir :=
                                           AList.update (pickle_name user_id)
                                             (Pickle (NewFormat td)) (pickles_dir fs) \<rparr>;
                                   fs2 = fs1 \<lparr> photos_dir :=
                                           save_photos user_id imgs 0 (photos_dir fs1) \<rparr>;
                                   fs3 = fs2 \<lparr> photos_dir :=
                                           AList.update (first_photo_name user_id) first
                                             (photos_dir fs2) \<rparr>;
                                   user_data =
                                     \<lparr> name = strip (name data),
                                       email = addr,
                                       phone = strip (phone data),
                                       dateOfBirth = strip (dateOfBirth data),
                                       gender = strip (gender data),
                                       address = strip (address data),
                                       department = strip (department data),
                                       position = strip (position data),
                                       emergencyContact = strip (emergencyContact data),
                                       emergencyPhone = strip (emergencyPhone data) \<rparr>
                               in case save_user_data user_data user_id now (users_csv fs3) of
                                    (True, csv) \<Rightarrow>
                                      (Registered user_id (name user_data) addr (length imgs)
                                         valid_images (training_quality td),
                                       fs3 \<lparr> users_csv := csv \<rparr>)
                                  | (False, csv) \<Rightarrow>
                                      (FailedToSaveUserData,
                                       cleanup user_id (length imgs) fs3)))))))"

section \<open>Example inputs\<close>

text \<open>
  A detector and an extractor on which the functions above can be run: images and pixel
  regions are numbers. Image 5 shows no face; every other image shows three faces, the
  second the largest; the extractor knows the largest faces of images 3 and 4 only.
\<close>

definition example_detect :: "nat \<Rightarrow> nat face_region list" where
  "example_detect img =
     (if img = 5 then []
      else [\<lparr> face = img, bbox = (0, 0, 2, 2), confidence = 1 \<rparr>,
            \<lparr> face = 10 + img, bbox = (1, 1, 3, 3), confidence = 1 \<rparr>,
            \<lparr> face = 20 + img, bbox = (5, 5, 1, 4), confidence = 1 \<rparr>])"

definition example_extract :: "nat \<Rightarrow> features option" where
  "example_extract px =
     (if px = 13 then Some [1, 0] else if px = 14 then Some [0, 1] else None)"

text \<open>
  A registration request with two images, a state in which the face of image 3 is
  enrolled under the legacy profile \<^verbatim>\<open>alice.pickle\<close>, and an empty state whose
  CSV file cannot be read.
\<close>

definition example_request :: "nat request" where
  "example_request =
     \<lparr> name = ''Bob'', email = [], phone = [], dateOfBirth = [], gender = [],
       address = [], department = [], position = [], emergencyContact = [],
       emergencyPhone = [], images = [3, 4] \<rparr>"

definition example_enrolled :: "nat filesystem" where
  "example_enrolled =
     \<lparr> pickles_dir = [(''alice.pickle'', Pickle (OldFormat [1, 0]))],
       photos_dir = [],
       users_csv =
         CsvTable
           [\<lparr> col_user_id = ''alice'', col_name = ''Alice'', col_email = [],
               col_phone = [], col_date_of_birth = [], col_gender = [], col_address = [],
               col_department = [], col_position = [], col_emergency_contact = [],
               col_emergency_phone = [], col_registration_date = [], col_last_login = [],
               col_login_count = 0 \<rparr>] \<rparr>"

definition example_unreadable :: "nat filesystem" where
  "example_unreadable = \<lparr> pickles_dir = [], photos_dir = [], users_csv = CsvUnreadable \<rparr>"

section \<open>Properties of the comparisons\<close>

subsection \<open>Python's max\<close>

lemma max_from_mem: "max_from key b xs \<in> set (b # xs)"
  by (induction xs arbitrary: b) auto

lemma max_from_start: "key b \<le> key (max_from key b xs)"
proof (induction xs arbitrary: b)
  case Nil
  show ?case by simp
next
  case (Cons x xs)
  show ?case
  proof (cases "key b < key x")
    case True
    have "key b \<le> key x" using True by simp
    also have "key x \<le> key (max_from key x xs)" by (rule Cons.IH)
    finally show ?thesis using True by simp
  next
    case False
    then show ?thesis using Cons.IH[of b] by simp
  qed
qed

lemma max_from_ge: "y \<in> set xs \<Longrightarrow> key y \<le> key (max_from key b xs)"
proof (induction xs arbitrary: b)
  case Nil
  then show ?case by simp
next
  case (Cons x xs)
  show ?case
  proof (cases "y = x")
    case True
    show ?thesis
    proof (cases "key b < key x")
      case lt: True
      then show ?thesis using True max_from_start[of key x xs] by simp
    next
      case ge: False
      then have "key x \<le> key b" by simp
      also have "key b \<le> key (max_from key b xs)" by (rule max_from_start)
      finally show ?thesis using True ge by simp
    qed
  next
    case False
    with Cons.prems have "y \<in> set xs" by simp
    then show ?thesis using Cons.IH by simp
  qed
qed

lemma max_from_Max: "max_from (\<lambda>v. v) b xs = Max (set (b # xs))"
proof -
  have "max_from (\<lambda>v. v) b xs \<in> set (b # xs)" by (rule max_from_mem)
  moreover have "\<forall>y\<in>set (b # xs). y \<le> max_from (\<lambda>v. v) b xs"
    using max_from_ge[of _ xs "\<lambda>v. v" b] max_from_start[of "\<lambda>v. v" b xs] by auto
  ultimately show ?thesis
    by (intro Max_eqI[symmetric]) auto
qed

subsection \<open>Evaluating the similarity on unit vectors\<close>

lemma cos_sim_unit_same: "cos_sim [1, 0] [1, 0] = 1"
  by (simp add: cos_sim_def dot_def linalg_norm_def)

lemma cos_sim_unit_orth: "cos_sim [0, 1] [1, 0] = 0"
  by (simp add: cos_sim_def dot_def linalg_norm_def)

lemma score_three_photos:
  "snd (compare_features_advanced
          (Some \<lparr> ensemble_features = [1, 0],
                  individual_features = [[1, 0], [1, 0], [1, 0]],
                  num_photos = 3, training_quality = 18 / 25 \<rparr>)
          (Some [1, 0])) = 18 / 25"
  by (simp add: compare_features_advanced_def advanced_scores_def cosine_similarity_def
      cos_sim_unit_same mean_def Let_def)

lemma score_two_photos:
  "snd (compare_features_advanced
          (Some \<lparr> ensemble_features = [1, 0],
                  individual_features = [[1, 0], [1, 0]],
                  num_photos = 2, training_quality = 18 / 25 \<rparr>)
          (Some [1, 0])) = 18 / 25"
  by (simp add: compare_features_advanced_def advanced_scores_def cosine_similarity_def
      cos_sim_unit_same mean_def Let_def)

lemma score_simple_same:
  "snd (compare_features_simple (Some [1, 0]) (Some [1, 0]) None) = 1"
  by (simp add: compare_features_simple_def cosine_similarity_def cos_sim_unit_same)

subsection \<open>Thresholds, scores and null inputs\<close>

lemma individual_similarities_ok:
  "unknown \<noteq> [] \<Longrightarrow> \<forall>f\<in>set fs. length f = length unknown \<Longrightarrow>
     individual_similarities fs unknown = Inr (map (\<lambda>f. cos_sim f unknown) fs)"
  by (induction fs) (auto simp: cosine_similarity_def)

lemma advanced_error_or_threshold:
  "advanced_scores p u = Inr (m, s) \<Longrightarrow>
     m = ((if 3 \<le> num_photos p then 0.70 else 0.75) \<le> s)"
  by (auto simp: advanced_scores_def Let_def multi_photo_threshold_def strict_threshold_def
      split: sum.splits)

text \<open>
  Claim C2. The advanced comparison reports a match exactly when the score reaches 0.70
  for a profile with at least three photos, and exactly when it reaches 0.75 for a profile
  with fewer (two in particular); this holds for every unknown embedding, \<^verbatim>\<open>None\<close>
  and the inputs on which the comparison catches an exception included. The simple
  comparison called without a threshold returns the cosine similarity of its two arguments
  as the score and reports a match exactly when that similarity reaches 0.75 (and
  \<^verbatim>\<open>(False, 0.0)\<close> when the library call raises); the scan compares a legacy profile
  in exactly this way. With an explicit threshold the similarity is compared with it.
\<close>

theorem threshold_selection:
  "(3 \<le> num_photos p \<longrightarrow>
      (fst (compare_features_advanced (Some p) u)
         \<longleftrightarrow> 0.70 \<le> snd (compare_features_advanced (Some p) u)))
   \<and> (num_photos p < 3 \<longrightarrow>
        (fst (compare_features_advanced (Some p) u)
           \<longleftrightarrow> 0.75 \<le> snd (compare_features_advanced (Some p) u)))
   \<and> (fst (compare_features_simple f1 f2 None)
        \<longleftrightarrow> 0.75 \<le> snd (compare_features_simple f1 f2 None))
   \<and> (fst (compare_stored (OldFormat fv) v)
        \<longleftrightarrow> 0.75 \<le> snd (compare_stored (OldFormat fv) v))
   \<and> compare_features_simple (Some a) (Some b) None
        = (if a = [] \<or> length a \<noteq> length b then (False, 0)
           else (0.75 \<le> cos_sim a b, cos_sim a b))
   \<and> compare_stored (OldFormat a) b
        = (if a = [] \<or> length a \<noteq> length b then (False, 0)
           else (0.75 \<le> cos_sim a b, cos_sim a b))
   \<and> compare_features_simple (Some a) (Some b) (Some t)
        = (if a = [] \<or> length a \<noteq> length b then (False, 0)
           else (t \<le> cos_sim a b, cos_sim a b))"
proof -
  have adv: "fst (compare_features_advanced (Some p) u)
      \<longleftrightarrow> (if 3 \<le> num_photos p then 0.70 else 0.75) \<le> snd (compare_features_advanced (Some p) u)"
  proof (cases u)
    case None
    then show ?thesis by (simp add: compare_features_advanced_def)
  next
    case (Some v)
    show ?thesis
    proof (cases "advanced_scores p v")
      case (Inl e)
      with Some show ?thesis by (simp add: compare_features_advanced_def)
    next
      case (Inr r)
      obtain m s where r: "r = (m, s)" by (cases r)
      from advanced_error_or_threshold[of p v m s] Inr r Some show ?thesis
        by (simp add: compare_features_advanced_def)
    qed
  qed
  have simple: "fst (compare_features_simple f1 f2 None)
        \<longleftrightarrow> 0.75 \<le> snd (compare_features_simple f1 f2 None)"
    by (simp add: compare_features_simple_def strict_threshold_def split: sum.splits)
  have legacy: "fst (compare_stored (OldFormat fv) v)
        \<longleftrightarrow> 0.75 \<le> snd (compare_stored (OldFormat fv) v)"
    by (simp add: compare_stored_def compare_features_simple_def strict_threshold_def
        split: sum.splits)
  have simple_value: "compare_features_simple (Some a) (Some b) None
        = (if a = [] \<or> length a \<noteq> length b then (False, 0)
           else (0.75 \<le> cos_sim a b, cos_sim a b))"
    by (simp add: compare_features_simple_def cosine_similarity_def strict_threshold_def)
  have legacy_value: "compare_stored (OldFormat a) b
        = (if a = [] \<or> length a \<noteq> length b then (False, 0)
           else (0.75 \<le> cos_sim a b, cos_sim a b))"
    by (simp add: compare_stored_def simple_value)
  have given_value: "compare_features_simple (Some a) (Some b) (Some t)
        = (if a = [] \<or> length a \<noteq> length b then (False, 0)
           else (t \<le> cos_sim a b, cos_sim a b))"
    by (simp add: compare_features_simple_def cosine_similarity_def)
  from adv simple legacy simple_value legacy_value given_value show ?thesis by simp
qed

theorem threshold_selection_witness:
  "fst (compare_features_advanced
          (Some \<lparr> ensemble_features = [1, 0],
                  individual_features = [[1, 0], [1, 0], [1, 0]],
                  num_photos = 3, training_quality = 18 / 25 \<rparr>)
          (Some [1, 0]))
   \<and> \<not> fst (compare_features_advanced
          (Some \<lparr> ensemble_features = [1, 0],
                  individual_features = [[1, 0], [1, 0]],
                  num_photos = 2, training_quality = 18 / 25 \<rparr>)
          (Some [1, 0]))
   \<and> fst (compare_features_simple (Some [1, 0]) (Some [1, 0]) None)
   \<and> compare_features_simple (Some [1, 0]) (Some [1, 0]) None = (True, 1)
   \<and> compare_features_simple (Some [0, 1]) (Some [1, 0]) None = (False, 0)
   \<and> compare_stored (OldFormat [0, 1]) [1, 0] = (False, 0)"
proof -
  have first: "fst (compare_features_advanced
          (Some \<lparr> ensemble_features = [1, 0],
                  individual_features = [[1, 0], [1, 0], [1, 0]],
                  num_photos = 3, training_quality = 18 / 25 \<rparr>)
          (Some [1, 0]))
   \<and> \<not> fst (compare_features_advanced
          (Some \<lparr> ensemble_features = [1, 0],
                  individual_features = [[1, 0], [1, 0]],
                  num_photos = 2, training_quality = 18 / 25 \<rparr>)
          (Some [1, 0]))
   \<and> fst (compare_features_simple (Some [1, 0]) (Some [1, 0]) None)"
    using threshold_selection
      [of "\<lparr> ensemble_features = [1, 0], individual_features = [[1, 0], [1, 0], [1, 0]],
              num_photos = 3, training_quality = 18 / 25 \<rparr>" "Some [1, 0]",
       THEN conjunct1]
      threshold_selection
      [of "\<lparr> ensemble_features = [1, 0], individual_features = [[1, 0], [1, 0]],
              num_photos = 2, training_quality = 18 / 25 \<rparr>" "Some [1, 0]",
       THEN conjunct2, THEN conjunct1]
      threshold_selection
      [of _ _ "Some [1, 0]" "Some [1, 0]", THEN conjunct2, THEN conjunct2, THEN conjunct1]
    by (simp only: score_three_photos score_two_photos score_simple_same
        training_data.simps) simp
  have same: "compare_features_simple (Some [1, 0]) (Some [1, 0]) None = (True, 1)"
    using threshold_selection [where a = "[1, 0]" and b = "[1, 0]",
        THEN conjunct2, THEN conjunct2, THEN conjunct2, THEN conjunct2, THEN conjunct1]
    by (simp add: cos_sim_unit_same)
  have orth: "compare_features_simple (Some [0, 1]) (Some [1, 0]) None = (False, 0)
      \<and> compare_stored (OldFormat [0, 1]) [1, 0] = (False, 0)"
    using threshold_selection [where a = "[0, 1]" and b = "[1, 0]",
        THEN conjunct2, THEN conjunct2, THEN conjunct2, THEN conjunct2]
    by (simp add: cos_sim_unit_orth)
  from first same orth show ?thesis by simp
qed

text \<open>
  Claim C3. For a profile with at least one individual embedding, all of whose embeddings
  have the length of the (non-empty) unknown embedding, the score of the advanced
  comparison is 0.4 times the cosine similarity with the ensemble, plus 0.3 times the
  greatest similarity with an individual embedding, plus 0.3 times the mean of these
  similarities, the sum multiplied by the smaller of the training quality and 1.
\<close>

theorem advanced_score_formula:
  assumes "unknown \<noteq> []"
    and "length (ensemble_features p) = length unknown"
    and "\<forall>f\<in>set (individual_features p). length f = length unknown"
    and "individual_features p \<noteq> []"
  shows "snd (compare_features_advanced (Some p) (Some unknown)) =
           (0.4 * cos_sim (ensemble_features p) unknown
            + 0.3 * Max (set (map (\<lambda>f. cos_sim f unknown) (individual_features p)))
            + 0.3 * (sum_list (map (\<lambda>f. cos_sim f unknown) (individual_features p))
                       / real (length (individual_features p))))
           * min (training_quality p) 1"
proof -
  let ?sims = "map (\<lambda>f. cos_sim f unknown) (individual_features p)"
  have sims: "individual_similarities (individual_features p) unknown = Inr ?sims"
    using assms(1,3) by (rule individual_similarities_ok)
  have ens: "cosine_similarity (Some (ensemble_features p)) (Some unknown) =
      Inr (cos_sim (ensemble_features p) unknown)"
    using assms(1,2) by (auto simp: cosine_similarity_def)
  obtain s rest where sr: "?sims = s # rest"
    using assms(4) by (cases "individual_features p") auto
  have best: "(case ?sims of [] \<Rightarrow> 0 | s # rest \<Rightarrow> max_from (\<lambda>v. v) s rest) = Max (set ?sims)"
    unfolding sr by (simp only: list.case max_from_Max)
  have avg: "(if ?sims = [] then 0 else mean ?sims)
      = sum_list ?sims / real (length (individual_features p))"
    using assms(4) by (simp add: mean_def)
  have "advanced_scores p unknown =
      Inr ((if 3 \<le> num_photos p then multi_photo_threshold else strict_threshold)
             \<le> (cos_sim (ensemble_features p) unknown * 0.4 + Max (set ?sims) * 0.3
                  + sum_list ?sims / real (length (individual_features p)) * 0.3)
                 * min (training_quality p) 1,
           (cos_sim (ensemble_features p) unknown * 0.4 + Max (set ?sims) * 0.3
              + sum_list ?sims / real (length (individual_features p)) * 0.3)
             * min (training_quality p) 1)"
    unfolding advanced_scores_def ens sims sum.case Let_def best avg ..
  then show ?thesis
    by (simp add: compare_features_advanced_def mult.commute)
qed

theorem advanced_score_formula_witness:
  "snd (compare_features_advanced
          (Some \<lparr> ensemble_features = [1, 0], individual_features = [[1, 0], [0, 1]],
                  num_photos = 2, training_quality = 1 / 2 \<rparr>)
          (Some [1, 0])) = 17 / 40"
  using advanced_score_formula
    [of "[1, 0]" "\<lparr> ensemble_features = [1, 0], individual_features = [[1, 0], [0, 1]],
                    num_photos = 2, training_quality = 1 / 2 \<rparr>"]
  by (simp add: cos_sim_unit_same cos_sim_unit_orth)

text \<open>
  Claim C7. When the stored profile or the unknown embedding is \<^verbatim>\<open>None\<close>, the
  advanced comparison returns \<^verbatim>\<open>(False, 0.0)\<close>, and so does the simple comparison
  when either of its feature arguments is \<^verbatim>\<open>None\<close>, whatever the threshold. Both
  are total functions into the pairs: no exception leaves them.
\<close>

theorem null_inputs_do_not_match:
  "(stored_data = None \<or> unknown_features = None \<longrightarrow>
      compare_features_advanced stored_data unknown_features = (False, 0))
   \<and> (features1 = None \<or> features2 = None \<longrightarrow>
        compare_features_simple features1 features2 threshold = (False, 0))"
  by (auto simp: compare_features_advanced_def compare_features_simple_def
      cosine_similarity_def split: option.splits)

theorem null_inputs_do_not_match_witness:
  "compare_features_advanced None (Some [1, 0]) = (False, 0)
   \<and> compare_features_advanced
        (Some \<lparr> ensemble_features = [1, 0], individual_features = [[1, 0], [0, 1]],
                num_photos = 2, training_quality = 1 \<rparr>) None = (False, 0)
   \<and> compare_features_simple None (Some [1, 0]) None = (False, 0)
   \<and> compare_features_simple (Some [1, 0]) None (Some (1 / 2)) = (False, 0)"
  using null_inputs_do_not_match [of None "Some [1, 0]" None "Some [1, 0]" None]
    null_inputs_do_not_match
      [of "Some \<lparr> ensemble_features = [1, 0], individual_features = [[1, 0], [0, 1]],
                   num_photos = 2, training_quality = 1 \<rparr>" None "Some [1, 0]" None
          "Some (1 / 2)"]
  by simp

section \<open>Properties of enrollment\<close>

subsection \<open>The loop, the mean and the norm\<close>

lemma collect_features_eq:
  "collect_features d e imgs (acc, n) =
     (acc @ List.map_filter (image_features d e) imgs,
      n + length (List.map_filter (image_features d e) imgs))"
proof (induction imgs arbitrary: acc n)
  case Nil
  show ?case by (simp add: map_filter_simps)
next
  case (Cons img rest)
  show ?case
  proof (cases "image_features d e img")
    case None
    then show ?thesis
      using Cons.IH[of acc n]
      by (auto simp: image_features_def map_filter_simps Let_def split: list.splits)
  next
    case (Some ft)
    then show ?thesis
      using Cons.IH[of "acc @ [ft]" "n + 1"]
      by (auto simp: image_features_def map_filter_simps Let_def split: list.splits)
  qed
qed

lemma np_mean_axis0_uniform:
  assumes "rows \<noteq> []" and "\<forall>q\<in>set rows. length q = k"
  shows "np_mean_axis0 rows =
           Inr (map (\<lambda>j. sum_list (map (\<lambda>q. q ! j) rows) / real (length rows)) [0..<k])"
proof -
  obtain r rs where rows: "rows = r # rs" using assms(1) by (cases rows) auto
  have "list_all (\<lambda>q. length q = length r) rs"
    using assms(2) by (simp add: rows list_all_iff)
  moreover have "length r = k" using assms(2) by (simp add: rows)
  ultimately show ?thesis by (simp add: np_mean_axis0_def rows)
qed

lemma np_mean_axis0_ragged:
  assumes "q \<in> set rows" and "q' \<in> set rows" and "length q \<noteq> length q'"
  shows "np_mean_axis0 rows = Inl ValueError"
proof -
  obtain r rs where rows: "rows = r # rs" using assms(1) by (cases rows) auto
  have "\<not> list_all (\<lambda>q. length q = length r) rs"
  proof
    assume "list_all (\<lambda>q. length q = length r) rs"
    then have "\<forall>x\<in>set rows. length x = length r" by (simp add: rows list_all_iff)
    with assms show False by auto
  qed
  then show ?thesis by (simp add: np_mean_axis0_def rows)
qed

lemma sum_list_map_mset:
  fixes f :: "'a \<Rightarrow> real"
  assumes "mset xs = mset ys"
  shows "sum_list (map f xs) = sum_list (map f ys)"
proof -
  have "sum_list (map f xs) = sum_mset (mset (map f xs))" by (simp only: sum_mset_sum_list)
  also have "\<dots> = sum_mset (mset (map f ys))" using assms by simp
  also have "\<dots> = sum_list (map f ys)" by (simp only: sum_mset_sum_list)
  finally show ?thesis .
qed

lemma np_mean_axis0_mset:
  assumes "mset rows = mset rows'"
  shows "np_mean_axis0 rows = np_mean_axis0 rows'"
proof (cases "rows = []")
  case True
  with assms have "rows' = []" by simp
  with True show ?thesis by simp
next
  case False
  with assms have ne': "rows' \<noteq> []" by auto
  have sets: "set rows = set rows'" using assms by (rule mset_eq_setD)
  have len: "length rows = length rows'" using assms by (rule mset_eq_length)
  show ?thesis
  proof (cases "\<exists>k. \<forall>q\<in>set rows. length q = k")
    case True
    then obtain k where k: "\<forall>q\<in>set rows. length q = k" ..
    then have k': "\<forall>q\<in>set rows'. length q = k" using sets by simp
    have "\<And>j. sum_list (map (\<lambda>q. q ! j) rows) = sum_list (map (\<lambda>q. q ! j) rows')"
      using assms by (rule sum_list_map_mset)
    then show ?thesis
      by (simp add: np_mean_axis0_uniform[OF False k] np_mean_axis0_uniform[OF ne' k'] len)
  next
    case ragged: False
    then obtain q q' where qq: "q \<in> set rows" "q' \<in> set rows" "length q \<noteq> length q'"
      by (metis)
    then have "q \<in> set rows'" "q' \<in> set rows'" using sets by simp_all
    with qq show ?thesis
      by (simp add: np_mean_axis0_ragged[OF qq] np_mean_axis0_ragged[of q rows' q'])
  qed
qed

lemma map_filter_mset:
  assumes "mset xs = mset ys"
  shows "mset (List.map_filter g xs) = mset (List.map_filter g ys)"
  using assms by (simp add: List.map_filter_def)

lemma sum_squares_nonneg: "0 \<le> sum_list (map (\<lambda>x::real. x * x) v)"
  by (rule sum_list_nonneg) auto

lemma linalg_norm_normalised:
  assumes "linalg_norm m \<noteq> 0"
  shows "linalg_norm (map (\<lambda>v. v / linalg_norm m) m) = 1"
proof -
  let ?S = "sum_list (map (\<lambda>x. x * x) m)"
  let ?n = "linalg_norm m"
  have n2: "?n * ?n = ?S"
    using sum_squares_nonneg[of m] by (simp add: linalg_norm_def)
  have S0: "?S \<noteq> 0" using assms by (auto simp: linalg_norm_def)
  have "sum_list (map (\<lambda>x. x * x) (map (\<lambda>v. v / ?n) m))
      = sum_list (map (\<lambda>v. (v * v) * (1 / (?n * ?n))) m)"
    by (simp add: comp_def)
  also have "\<dots> = ?S * (1 / (?n * ?n))" by (rule sum_list_mult_const)
  also have "\<dots> = 1" using S0 by (simp add: n2)
  finally show ?thesis by (simp add: linalg_norm_def)
qed

subsection \<open>The example inputs evaluated\<close>

lemma example_image_features:
  "image_features example_detect example_extract 5 = None"
  "image_features example_detect example_extract 3 = Some [1, 0]"
  "image_features example_detect example_extract 4 = Some [0, 1]"
  "image_features example_detect example_extract 6 = None"
  by (simp_all add: image_features_def example_detect_def example_extract_def bbox_area_def)

lemma example_areas:
  "bbox_area \<lparr> face = (3::nat), bbox = (0, 0, 2, 2), confidence = 1 \<rparr> = 4"
  "bbox_area \<lparr> face = (13::nat), bbox = (1, 1, 3, 3), confidence = 1 \<rparr> = 9"
  "bbox_area \<lparr> face = (23::nat), bbox = (5, 5, 1, 4), confidence = 1 \<rparr> = 4"
  by (simp_all add: bbox_area_def)

subsection \<open>Aggregation\<close>

text \<open>
  Claim C4. Call an image usable when the loop takes features from it
  (\<open>image_features\<close> is not \<open>None\<close>). With fewer than two usable images the
  aggregation returns no profile and the number of usable images. With two or more, whose
  features have one length (the extractor's output is of fixed length), it returns a
  profile whose \<^verbatim>\<open>num_photos\<close> is the number of usable images and whose
  \<^verbatim>\<open>training_quality\<close> is that number divided by the number of images submitted.
\<close>

theorem aggregation_floor:
  "(length (List.map_filter (image_features d e) imgs) < 2 \<longrightarrow>
      extract_features_from_multiple_images d e imgs =
        Inr (None, length (List.map_filter (image_features d e) imgs)))
   \<and> (2 \<le> length (List.map_filter (image_features d e) imgs)
        \<and> (\<forall>f\<in>set (List.map_filter (image_features d e) imgs).
             \<forall>g\<in>set (List.map_filter (image_features d e) imgs). length f = length g) \<longrightarrow>
        (\<exists>td. extract_features_from_multiple_images d e imgs =
                 Inr (Some td, length (List.map_filter (image_features d e) imgs))
              \<and> num_photos td = int (length (List.map_filter (image_features d e) imgs))
              \<and> training_quality td =
                  real (length (List.map_filter (image_features d e) imgs))
                    / real (length imgs)))"
proof -
  let ?usable = "List.map_filter (image_features d e) imgs"
  have c: "collect_features d e imgs ([], 0) = (?usable, length ?usable)"
    by (simp add: collect_features_eq)
  have few: "length ?usable < 2 \<Longrightarrow>
      extract_features_from_multiple_images d e imgs = Inr (None, length ?usable)"
    by (simp add: extract_features_from_multiple_images_def c)
  have many: "\<exists>td. extract_features_from_multiple_images d e imgs =
                 Inr (Some td, length ?usable)
              \<and> num_photos td = int (length ?usable)
              \<and> training_quality td = real (length ?usable) / real (length imgs)"
    if two: "2 \<le> length ?usable"
      and same: "\<forall>f\<in>set ?usable. \<forall>g\<in>set ?usable. length f = length g"
  proof -
    from two have ne: "?usable \<noteq> []" by auto
    then have "hd ?usable \<in> set ?usable" by simp
    with same have k: "\<forall>q\<in>set ?usable. length q = length (hd ?usable)" by blast
    from two have nf: "\<not> length ?usable < 2" by simp
    show ?thesis
      unfolding extract_features_from_multiple_images_def c
      by (simp add: nf np_mean_axis0_uniform[OF ne k])
  qed
  from few many show ?thesis by blast
qed

theorem aggregation_floor_witness:
  "extract_features_from_multiple_images example_detect example_extract [3, 5, 6]
     = Inr (None, 1)
   \<and> (\<exists>td. extract_features_from_multiple_images example_detect example_extract [3, 5, 4, 6]
              = Inr (Some td, 2)
           \<and> num_photos td = 2 \<and> training_quality td = 1 / 2)"
  using aggregation_floor [of example_detect example_extract "[3, 5, 6]"]
    aggregation_floor [of example_detect example_extract "[3, 5, 4, 6]"]
  by (simp add: example_image_features numeral_2_eq_2)

text \<open>
  Claim C8. Whenever the aggregation returns a profile, its individual embeddings are the
  features of the usable images, at least two; they have one length; the ensemble embedding
  is their arithmetic mean, coordinate by coordinate, divided by its Euclidean norm, and so
  of norm 1 unless the mean is the zero vector; and the aggregation of the same images in
  any other order returns a profile with the same ensemble embedding. (Over the reals the
  ensembles are equal; the floating-point error of the claim is outside the model.)
\<close>

theorem ensemble_is_normalised_mean:
  assumes "extract_features_from_multiple_images d e imgs = Inr (Some td, n)"
  shows "individual_features td = List.map_filter (image_features d e) imgs
     \<and> 2 \<le> length (individual_features td)
     \<and> (\<exists>k m. (\<forall>f\<in>set (individual_features td). length f = k) \<and> length m = k
            \<and> (\<forall>j<k. m ! j = sum_list (map (\<lambda>f. f ! j) (individual_features td))
                               / real (length (individual_features td)))
            \<and> ensemble_features td = map (\<lambda>v. v / linalg_norm m) m
            \<and> (linalg_norm m \<noteq> 0 \<longrightarrow> linalg_norm (ensemble_features td) = 1))
     \<and> (\<forall>imgs'. mset imgs' = mset imgs \<longrightarrow>
            (\<exists>td'. extract_features_from_multiple_images d e imgs' = Inr (Some td', n)
                 \<and> ensemble_features td' = ensemble_features td))"
proof -
  let ?usable = "List.map_filter (image_features d e) imgs"
  have c: "collect_features d e imgs ([], 0) = (?usable, length ?usable)"
    by (simp add: collect_features_eq)
  from assms have two: "\<not> length ?usable < 2"
    by (auto simp: extract_features_from_multiple_images_def c split: if_splits)
  have unfolded: "extract_features_from_multiple_images d e imgs =
      (case np_mean_axis0 ?usable of
         Inl err \<Rightarrow> Inl err
       | Inr m \<Rightarrow>
           Inr (Some \<lparr> ensemble_features = map (\<lambda>v. v / linalg_norm m) m,
                       individual_features = ?usable,
                       num_photos = int (length ?usable),
                       training_quality = real (length ?usable) / real (length imgs) \<rparr>,
                length ?usable))"
    using two by (simp add: extract_features_from_multiple_images_def c)
  obtain m where m: "np_mean_axis0 ?usable = Inr m"
  proof (cases "np_mean_axis0 ?usable")
    case (Inl err)
    with unfolded assms show ?thesis by simp
  next
    case (Inr m)
    with that show ?thesis .
  qed
  from unfolded assms m
  have td: "td = \<lparr> ensemble_features = map (\<lambda>v. v / linalg_norm m) m,
                     individual_features = ?usable,
                     num_photos = int (length ?usable),
                     training_quality = real (length ?usable) / real (length imgs) \<rparr>"
    and n: "n = length ?usable"
    by simp_all
  have ind: "individual_features td = ?usable" by (simp add: td)
  from two have ne: "?usable \<noteq> []" by auto
  have uni: "\<forall>q\<in>set ?usable. length q = length (hd ?usable)"
  proof (rule ccontr)
    assume "\<not> ?thesis"
    then obtain q where q: "q \<in> set ?usable" "length q \<noteq> length (hd ?usable)" by blast
    have h: "hd ?usable \<in> set ?usable" using ne by simp
    have "np_mean_axis0 ?usable = Inl ValueError"
      using q(1) h q(2) by (rule np_mean_axis0_ragged)
    with m show False by simp
  qed
  have mval: "m = map (\<lambda>j. sum_list (map (\<lambda>q. q ! j) ?usable) / real (length ?usable))
                    [0..<length (hd ?usable)]"
    using m np_mean_axis0_uniform[OF ne uni] by simp
  have part3: "\<exists>k m. (\<forall>f\<in>set (individual_features td). length f = k) \<and> length m = k
            \<and> (\<forall>j<k. m ! j = sum_list (map (\<lambda>f. f ! j) (individual_features td))
                               / real (length (individual_features td)))
            \<and> ensemble_features td = map (\<lambda>v. v / linalg_norm m) m
            \<and> (linalg_norm m \<noteq> 0 \<longrightarrow> linalg_norm (ensemble_features td) = 1)"
  proof (intro exI conjI)
    show "\<forall>f\<in>set (individual_features td). length f = length (hd ?usable)"
      using uni by (simp add: ind)
    show "length m = length (hd ?usable)" by (simp add: mval)
    show "\<forall>j<length (hd ?usable). m ! j = sum_list (map (\<lambda>f. f ! j) (individual_features td))
                               / real (length (individual_features td))"
      by (simp add: mval ind)
    show "ensemble_features td = map (\<lambda>v. v / linalg_norm m) m" by (simp add: td)
    show "linalg_norm m \<noteq> 0 \<longrightarrow> linalg_norm (ensemble_features td) = 1"
      using linalg_norm_normalised[of m] by (simp add: td)
  qed
  have part4: "\<exists>td'. extract_features_from_multiple_images d e imgs' = Inr (Some td', n)
                 \<and> ensemble_features td' = ensemble_features td"
    if perm: "mset imgs' = mset imgs" for imgs'
  proof -
    let ?usable' = "List.map_filter (image_features d e) imgs'"
    have c': "collect_features d e imgs' ([], 0) = (?usable', length ?usable')"
      by (simp add: collect_features_eq)
    have ms: "mset ?usable' = mset ?usable" using perm by (rule map_filter_mset)
    then have len: "length ?usable' = length ?usable" by (rule mset_eq_length)
    have m': "np_mean_axis0 ?usable' = Inr m"
      using np_mean_axis0_mset[OF ms] m by simp
    show ?thesis
      unfolding extract_features_from_multiple_images_def c'
      using two by (simp add: len m' n td)
  qed
  from ind two part3 part4 show ?thesis by (simp add: ind)
qed


theorem ensemble_is_normalised_mean_witness:
  "\<exists>td td'. extract_features_from_multiple_images example_detect example_extract [3, 4]
               = Inr (Some td, 2)
     \<and> extract_features_from_multiple_images example_detect example_extract [4, 3]
               = Inr (Some td', 2)
     \<and> individual_features td = [[1, 0], [0, 1]]
     \<and> individual_features td' = [[0, 1], [1, 0]]
     \<and> ensemble_features td' = ensemble_features td"
proof -
  let ?td = "\<lparr> ensemble_features = map (\<lambda>v. v / linalg_norm [1 / 2, 1 / 2]) [1 / 2, 1 / 2],
               individual_features = [[1, 0], [0, 1]],
               num_photos = 2, training_quality = 1 \<rparr>"
  have run: "extract_features_from_multiple_images example_detect example_extract [3, 4]
      = Inr (Some ?td, 2)"
    by (simp add: extract_features_from_multiple_images_def collect_features_eq
        example_image_features np_mean_axis0_def)
  have perm: "mset [4, 3 :: nat] = mset [3, 4]" by simp
  from ensemble_is_normalised_mean [OF run] perm
  obtain td' where
    "extract_features_from_multiple_images example_detect example_extract [4, 3]
       = Inr (Some td', 2)"
    and "ensemble_features td' = ensemble_features ?td"
    by blast
  moreover from this(1) have "individual_features td' = [[0, 1], [1, 0]]"
    by (auto simp: extract_features_from_multiple_images_def collect_features_eq
        example_image_features np_mean_axis0_def)
  ultimately show ?thesis using run by auto
qed

subsection \<open>Face selection\<close>

text \<open>
  Claim C9. When the detector returns no region, no face is selected: recognition answers
  \<^verbatim>\<open>'no_persons_found'\<close> and the enrollment loop passes the image over. Otherwise
  one of the returned regions, of greatest bounding-box area (width times height) among
  them, is the one whose pixels go to the extractor, and it is the same region in
  recognition and in the enrollment loop.
\<close>

theorem largest_face_selection:
  "(detect_faces img = [] \<longrightarrow>
      recognize_user_enhanced detect_faces extract_features pickles img = ''no_persons_found''
      \<and> collect_features detect_faces extract_features (img # rest) (all_features, n)
          = collect_features detect_faces extract_features rest (all_features, n))
   \<and> (detect_faces img \<noteq> [] \<longrightarrow>
        (\<exists>r\<in>set (detect_faces img).
            (\<forall>q\<in>set (detect_faces img). bbox_area q \<le> bbox_area r)
            \<and> recognize_user_enhanced detect_faces extract_features pickles img
                = (case extract_features (face r) of
                     None \<Rightarrow> ''no_persons_found''
                   | Some unknown_features \<Rightarrow> gallery_scan pickles unknown_features)
            \<and> collect_features detect_faces extract_features (img # rest) (all_features, n)
                = (case extract_features (face r) of
                     None \<Rightarrow>
                       collect_features detect_faces extract_features rest (all_features, n)
                   | Some feats \<Rightarrow>
                       collect_features detect_faces extract_features rest
                         (all_features @ [feats], n + 1))))"
proof (cases "detect_faces img")
  case Nil
  then show ?thesis by (simp add: recognize_user_enhanced_def)
next
  case (Cons f fs)
  let ?r = "max_from bbox_area f fs"
  have mem: "?r \<in> set (detect_faces img)"
    using max_from_mem[of bbox_area f fs] by (simp add: Cons)
  have top: "\<forall>q\<in>set (detect_faces img). bbox_area q \<le> bbox_area ?r"
    using max_from_start[of bbox_area f fs] max_from_ge[of _ fs bbox_area f]
    by (auto simp: Cons)
  have rec: "recognize_user_enhanced detect_faces extract_features pickles img
      = (case extract_features (face ?r) of
           None \<Rightarrow> ''no_persons_found''
         | Some unknown_features \<Rightarrow> gallery_scan pickles unknown_features)"
    by (simp add: recognize_user_enhanced_def Cons Let_def)
  have col: "collect_features detect_faces extract_features (img # rest) (all_features, n)
      = (case extract_features (face ?r) of
           None \<Rightarrow> collect_features detect_faces extract_features rest (all_features, n)
         | Some feats \<Rightarrow>
             collect_features detect_faces extract_features rest
               (all_features @ [feats], n + 1))"
    by (simp add: Cons Let_def split: option.splits)
  from mem top rec col have "\<exists>r\<in>set (detect_faces img).
            (\<forall>q\<in>set (detect_faces img). bbox_area q \<le> bbox_area r)
            \<and> recognize_user_enhanced detect_faces extract_features pickles img
                = (case extract_features (face r) of
                     None \<Rightarrow> ''no_persons_found''
                   | Some unknown_features \<Rightarrow> gallery_scan pickles unknown_features)
            \<and> collect_features detect_faces extract_features (img # rest) (all_features, n)
                = (case extract_features (face r) of
                     None \<Rightarrow>
                       collect_features detect_faces extract_features rest (all_features, n)
                   | Some feats \<Rightarrow>
                       collect_features detect_faces extract_features rest
                         (all_features @ [feats], n + 1))"
    by blast
  then show ?thesis by (simp add: Cons)
qed

theorem largest_face_selection_witness:
  "recognize_user_enhanced example_detect example_extract [] 5 = ''no_persons_found''
   \<and> collect_features example_detect example_extract [5] ([], 0) = ([], 0)
   \<and> recognize_user_enhanced example_detect example_extract [] 3 = gallery_scan [] [1, 0]
   \<and> collect_features example_detect example_extract [3] ([], 0) = ([[1, 0]], 1)"
proof -
  have none: "example_detect 5 = []" by (simp add: example_detect_def)
  have some: "example_detect 3 =
      [\<lparr> face = 3, bbox = (0, 0, 2, 2), confidence = 1 \<rparr>,
       \<lparr> face = 13, bbox = (1, 1, 3, 3), confidence = 1 \<rparr>,
       \<lparr> face = 23, bbox = (5, 5, 1, 4), confidence = 1 \<rparr>]"
    by (simp add: example_detect_def)
  have ne: "example_detect 3 \<noteq> []" by (simp add: some)
  from largest_face_selection [of example_detect 5 example_extract "[]" "[]" "[]" 0] none
  have a: "recognize_user_enhanced example_detect example_extract [] 5 = ''no_persons_found''
      \<and> collect_features example_detect example_extract [5] ([], 0) = ([], 0)"
    by simp
  from largest_face_selection [of example_detect 3 example_extract "[]" "[]" "[]" 0] ne
  obtain r where r: "r \<in> set (example_detect 3)"
    and top: "\<forall>q\<in>set (example_detect 3). bbox_area q \<le> bbox_area r"
    and rec: "recognize_user_enhanced example_detect example_extract [] 3
                = (case example_extract (face r) of
                     None \<Rightarrow> ''no_persons_found''
                   | Some unknown_features \<Rightarrow> gallery_scan [] unknown_features)"
    and col: "collect_features example_detect example_extract [3] ([], 0)
                = (case example_extract (face r) of
                     None \<Rightarrow> collect_features example_detect example_extract [] ([], 0)
                   | Some feats \<Rightarrow>
                       collect_features example_detect example_extract [] ([] @ [feats], 0 + 1))"
    by blast
  from r top have "r = \<lparr> face = 13, bbox = (1, 1, 3, 3), confidence = 1 \<rparr>"
    unfolding some by (auto simp: example_areas)
  then have ex: "example_extract (face r) = Some [1, 0]"
    by (simp add: example_extract_def)
  have b1: "recognize_user_enhanced example_detect example_extract [] 3
        = gallery_scan [] [1, 0]"
    unfolding rec ex by simp
  have b2: "collect_features example_detect example_extract [3] ([], 0) = ([[1, 0]], 1)"
    unfolding col ex by simp
  from a b1 b2 show ?thesis by simp
qed

section \<open>Properties of the gallery scan\<close>

subsection \<open>Steps of the scan\<close>

lemma scan_step_candidate:
  "scan_step u (bm, bs) entry =
     (case candidate u entry of
        None \<Rightarrow> (bm, bs)
      | Some (k, s) \<Rightarrow> if bs < s then (Some k, s) else (bm, bs))"
  by (cases entry)
     (simp add: scan_step_def candidate_def split: sum.splits prod.splits)

lemma scan_step_garbage: "scan_step u st (file, Garbage) = st"
  by (cases st) (simp add: scan_step_candidate candidate_def pickle_load_def)

lemma foldl_scan_skip:
  "foldl (scan_step u) st (before @ (file, Garbage) # after)
     = foldl (scan_step u) st (before @ after)"
  by (simp add: scan_step_garbage)

lemma foldl_scan_filter:
  "foldl (scan_step u) st (filter (\<lambda>entry. snd entry \<noteq> Garbage) pickles)
     = foldl (scan_step u) st pickles"
proof (induction pickles arbitrary: st)
  case Nil
  show ?case by simp
next
  case (Cons entry rest)
  obtain fname content where entry: "entry = (fname, content)" by (cases entry)
  show ?case
    by (cases "content = Garbage") (simp_all add: entry Cons.IH scan_step_garbage)
qed

lemma endswith_alice: "endswith ''alice.pickle'' ''.pickle''"
  by (simp add: endswith_def)

lemma drop_last7_alice: "drop_last7 ''alice.pickle'' = ''alice''"
  by (simp add: drop_last7_def)

lemma compare_stored_same: "compare_stored (OldFormat [1, 0]) [1, 0] = (True, 1)"
  by (simp add: compare_stored_def compare_features_simple_def cosine_similarity_def
      cos_sim_unit_same strict_threshold_def)

lemma scan_alice:
  "gallery_scan [(''alice.pickle'', Pickle (OldFormat [1, 0]))] [1, 0] = ''alice''"
  by (simp add: gallery_scan_def scan_step_candidate candidate_def endswith_alice
      drop_last7_alice pickle_load_def compare_stored_same)

subsection \<open>Corrupt profiles\<close>

text \<open>
  Claim C6. A file of the gallery that fails to load is skipped and the scan goes on over
  the rest: the scan of a gallery with such a file, wherever it stands, returns what the
  scan of the gallery without it returns, and so does recognition; the same holds with
  all such files removed at once. So with one corrupt profile and one valid matching
  profile the scan returns what it returns for the valid profile alone.
\<close>

theorem corrupt_profiles_skipped:
  "gallery_scan (before @ (file, Garbage) # after) u = gallery_scan (before @ after) u
   \<and> recognize_user_enhanced d e (before @ (file, Garbage) # after) img
       = recognize_user_enhanced d e (before @ after) img
   \<and> gallery_scan pickles u
       = gallery_scan (filter (\<lambda>entry. snd entry \<noteq> Garbage) pickles) u"
proof -
  have one: "\<And>v. gallery_scan (before @ (file, Garbage) # after) v
      = gallery_scan (before @ after) v"
    unfolding gallery_scan_def foldl_scan_skip ..
  have rec: "recognize_user_enhanced d e (before @ (file, Garbage) # after) img
       = recognize_user_enhanced d e (before @ after) img"
    unfolding recognize_user_enhanced_def one ..
  have all: "gallery_scan pickles u
       = gallery_scan (filter (\<lambda>entry. snd entry \<noteq> Garbage) pickles) u"
    unfolding gallery_scan_def foldl_scan_filter ..
  from one rec all show ?thesis by simp
qed

theorem corrupt_profiles_skipped_witness:
  "gallery_scan [(''bob.pickle'', Garbage), (''alice.pickle'', Pickle (OldFormat [1, 0]))]
      [1, 0] = ''alice''
   \<and> gallery_scan [(''alice.pickle'', Pickle (OldFormat [1, 0])), (''bob.pickle'', Garbage)]
      [1, 0] = ''alice''"
  using corrupt_profiles_skipped
      [of "[]" "''bob.pickle''" "[(''alice.pickle'', Pickle (OldFormat [1, 0]))]" "[1, 0]",
       THEN conjunct1]
    corrupt_profiles_skipped
      [of "[(''alice.pickle'', Pickle (OldFormat [1, 0]))]" "''bob.pickle''" "[]" "[1, 0]",
       THEN conjunct1]
  by (simp add: scan_alice)

subsection \<open>The best match\<close>

text \<open>
  A reported match has a positive score, so the first match always replaces the initial
  \<^verbatim>\<open>best_score = 0.0\<close>. The loop ends with the greatest score among the
  candidates and the key of a candidate that has it. What is returned is that key, unless
  the key is the empty string.
\<close>

lemma advanced_match_positive:
  "fst (compare_features_advanced sd u) \<Longrightarrow> 0 < snd (compare_features_advanced sd u)"
proof -
  assume m: "fst (compare_features_advanced sd u)"
  then obtain p v where sd: "sd = Some p" and u: "u = Some v"
    by (cases sd; cases u) (simp_all add: compare_features_advanced_def)
  from m obtain r where r: "advanced_scores p v = Inr r"
    by (cases "advanced_scores p v") (simp_all add: compare_features_advanced_def sd u)
  obtain b s where bs: "r = (b, s)" by (cases r)
  from advanced_error_or_threshold[of p v b s] r bs
  have "b = ((if 3 \<le> num_photos p then 0.70 else 0.75) \<le> s)" by simp
  moreover from m have b by (simp add: compare_features_advanced_def sd u r bs)
  ultimately have "0 < s" by (simp split: if_splits)
  then show ?thesis by (simp add: compare_features_advanced_def sd u r bs)
qed

lemma simple_match_positive:
  "fst (compare_features_simple f1 f2 None) \<Longrightarrow> 0 < snd (compare_features_simple f1 f2 None)"
  by (auto simp: compare_features_simple_def strict_threshold_def split: sum.splits)

lemma candidate_positive: "candidate u entry = Some (k, s) \<Longrightarrow> 0 < s"
proof -
  assume c: "candidate u entry = Some (k, s)"
  obtain fname content where entry: "entry = (fname, content)" by (cases entry)
  from c obtain sd where sd: "pickle_load content = Inr sd"
    and m: "fst (compare_stored sd u)" and s: "s = snd (compare_stored sd u)"
    by (auto simp: candidate_def entry split: if_splits sum.splits prod.splits)
  show ?thesis
  proof (cases sd)
    case (NewFormat td)
    with m s advanced_match_positive[of "Some td" "Some u"] show ?thesis
      by (simp add: compare_stored_def)
  next
    case (OldFormat fv)
    with m s simple_match_positive[of "Some fv" "Some u"] show ?thesis
      by (simp add: compare_stored_def)
  qed
qed

lemma scan_fold_upper:
  "foldl (scan_step u) (bm, bs) pickles = (bm', bs') \<Longrightarrow>
     bs \<le> bs' \<and> (\<forall>entry\<in>set pickles. \<forall>k s. candidate u entry = Some (k, s) \<longrightarrow> s \<le> bs')"
proof (induction pickles arbitrary: bm bs)
  case Nil
  then show ?case by simp
next
  case (Cons entry rest)
  obtain bm1 bs1 where step: "scan_step u (bm, bs) entry = (bm1, bs1)"
    by (cases "scan_step u (bm, bs) entry")
  from Cons.prems have "foldl (scan_step u) (bm1, bs1) rest = (bm', bs')"
    by (simp add: step)
  from Cons.IH[OF this] have up: "bs1 \<le> bs'"
    and rest: "\<forall>entry\<in>set rest. \<forall>k s. candidate u entry = Some (k, s) \<longrightarrow> s \<le> bs'"
    by simp_all
  from step have s1: "bs \<le> bs1"
    by (auto simp: scan_step_candidate split: option.splits if_splits)
  from step have here: "\<forall>k s. candidate u entry = Some (k, s) \<longrightarrow> s \<le> bs1"
    by (auto simp: scan_step_candidate split: option.splits if_splits)
  from s1 up here rest show ?case by fastforce
qed

lemma scan_fold_origin:
  "foldl (scan_step u) (bm, bs) pickles = (bm', bs') \<Longrightarrow>
     (bm', bs') = (bm, bs)
     \<or> (\<exists>entry\<in>set pickles. \<exists>k. candidate u entry = Some (k, bs') \<and> bm' = Some k \<and> bs < bs')"
proof (induction pickles arbitrary: bm bs)
  case Nil
  then show ?case by simp
next
  case (Cons entry rest)
  obtain bm1 bs1 where step: "scan_step u (bm, bs) entry = (bm1, bs1)"
    by (cases "scan_step u (bm, bs) entry")
  from Cons.prems have run: "foldl (scan_step u) (bm1, bs1) rest = (bm', bs')"
    by (simp add: step)
  from step have here: "(bm1, bs1) = (bm, bs)
      \<or> (\<exists>k. candidate u entry = Some (k, bs1) \<and> bm1 = Some k \<and> bs < bs1)"
    by (auto simp: scan_step_candidate split: option.splits if_splits)
  from step have s1: "bs \<le> bs1"
    by (auto simp: scan_step_candidate split: option.splits if_splits)
  from scan_fold_upper[OF run] have up: "bs1 \<le> bs'" by simp
  from Cons.IH[OF run] have later: "(bm', bs') = (bm1, bs1)
      \<or> (\<exists>entry\<in>set rest. \<exists>k. candidate u entry = Some (k, bs') \<and> bm' = Some k \<and> bs1 < bs')" .
  from here later s1 up show ?case by fastforce
qed

lemma gallery_scan_no_candidate:
  assumes "\<forall>entry\<in>set pickles. candidate u entry = None"
  shows "gallery_scan pickles u = ''unknown_person''"
proof -
  obtain bm' bs' where run: "foldl (scan_step u) (None, 0) pickles = (bm', bs')"
    by (cases "foldl (scan_step u) (None, 0) pickles")
  from scan_fold_origin[OF run] assms have "(bm', bs') = (None, 0)" by auto
  with run show ?thesis by (simp add: gallery_scan_def)
qed

lemma gallery_scan_best_candidate:
  assumes "entry0 \<in> set pickles" and "candidate u entry0 = Some (k0, s0)"
  shows "\<exists>entry\<in>set pickles. \<exists>k s. candidate u entry = Some (k, s)
           \<and> (\<forall>entry'\<in>set pickles. \<forall>k' s'. candidate u entry' = Some (k', s') \<longrightarrow> s' \<le> s)
           \<and> gallery_scan pickles u = (if k = [] then ''unknown_person'' else k)"
proof -
  obtain bm' bs' where run: "foldl (scan_step u) (None, 0) pickles = (bm', bs')"
    by (cases "foldl (scan_step u) (None, 0) pickles")
  from scan_fold_upper[OF run]
  have upper: "\<forall>entry\<in>set pickles. \<forall>k s. candidate u entry = Some (k, s) \<longrightarrow> s \<le> bs'"
    by simp
  with assms have "s0 \<le> bs'" by blast
  moreover have "0 < s0" using assms(2) by (rule candidate_positive)
  ultimately have "(bm', bs') \<noteq> (None, 0)" by auto
  with scan_fold_origin[OF run]
  obtain entry k where e: "entry \<in> set pickles" and c: "candidate u entry = Some (k, bs')"
    and bm: "bm' = Some k"
    by blast
  have "gallery_scan pickles u = (if k = [] then ''unknown_person'' else k)"
    by (simp add: gallery_scan_def run bm)
  with e c upper show ?thesis by blast
qed

text \<open>
  The test of the last line is Python's truth test, which the empty string fails. A file
  named exactly \<^verbatim>\<open>.pickle\<close> has the empty key and is reported as no match; this
  is why the statement below speaks of galleries with non-empty keys.
\<close>

lemma empty_key_reported_unknown:
  "compare_stored (OldFormat [1, 0]) [1, 0] = (True, 1)
   \<and> gallery_scan [(''.pickle'', Pickle (OldFormat [1, 0]))] [1, 0] = ''unknown_person''"
  by (simp add: gallery_scan_def scan_step_candidate candidate_def endswith_def
      drop_last7_def pickle_load_def compare_stored_same)

lemma candidate_Some_iff:
  "candidate u (fname, content) = Some (k, s) \<longleftrightarrow>
     endswith fname ''.pickle''
     \<and> (\<exists>sd. content = Pickle sd \<and> fst (compare_stored sd u)
              \<and> k = drop_last7 fname \<and> s = snd (compare_stored sd u))"
  by (cases content)
     (auto simp: candidate_def pickle_load_def split: prod.splits)

lemma candidate_None_iff:
  "candidate u (fname, content) = None \<longleftrightarrow>
     \<not> (endswith fname ''.pickle''
        \<and> (\<exists>sd. content = Pickle sd \<and> fst (compare_stored sd u)))"
  by (cases content)
     (auto simp: candidate_def pickle_load_def split: prod.splits)

lemma compare_stored_orth: "compare_stored (OldFormat [0, 1]) [1, 0] = (False, 0)"
  by (simp add: compare_stored_def compare_features_simple_def cosine_similarity_def
      cos_sim_unit_orth strict_threshold_def)

lemma compare_stored_three_photos:
  "compare_stored
     (NewFormat \<lparr> ensemble_features = [1, 0],
                  individual_features = [[1, 0], [1, 0], [1, 0]],
                  num_photos = 3, training_quality = 18 / 25 \<rparr>) [1, 0] = (True, 18 / 25)"
  by (simp add: compare_stored_def compare_features_advanced_def advanced_scores_def
      cosine_similarity_def cos_sim_unit_same mean_def Let_def multi_photo_threshold_def)

text \<open>
  Claim C1. Take any gallery in which every pickle file has a non-empty identity key, as
  every file has that \<^verbatim>\<open>register\<close> writes (it names them by eight characters of a
  uuid), and any unknown embedding. The scan compares a multi-photo profile by the
  advanced comparison and a legacy profile by the simple one. If no profile of the gallery
  matches, it returns \<^verbatim>\<open>'unknown_person'\<close>. If some profile matches, it returns the
  identity key of a matching profile whose score is greatest among all matching profiles
  of the gallery.
\<close>

theorem gallery_scan_best_match:
  assumes keys: "\<forall>entry\<in>set pickles.
                   endswith (fst entry) ''.pickle'' \<longrightarrow> drop_last7 (fst entry) \<noteq> []"
  shows "compare_stored (NewFormat td) u = compare_features_advanced (Some td) (Some u)
     \<and> compare_stored (OldFormat fv) u = compare_features_simple (Some fv) (Some u) None
     \<and> ((\<forall>fname sd. (fname, Pickle sd) \<in> set pickles \<and> endswith fname ''.pickle''
                       \<longrightarrow> \<not> fst (compare_stored sd u))
          \<longrightarrow> gallery_scan pickles u = ''unknown_person'')
     \<and> ((\<exists>fname sd. (fname, Pickle sd) \<in> set pickles \<and> endswith fname ''.pickle''
                       \<and> fst (compare_stored sd u))
          \<longrightarrow> (\<exists>fname sd. (fname, Pickle sd) \<in> set pickles \<and> endswith fname ''.pickle''
                    \<and> fst (compare_stored sd u)
                    \<and> gallery_scan pickles u = drop_last7 fname
                    \<and> (\<forall>fname' sd'. (fname', Pickle sd') \<in> set pickles
                             \<and> endswith fname' ''.pickle'' \<and> fst (compare_stored sd' u)
                           \<longrightarrow> snd (compare_stored sd' u) \<le> snd (compare_stored sd u))))"
proof -
  have dispatch_new:
    "compare_stored (NewFormat td) u = compare_features_advanced (Some td) (Some u)"
    by (simp add: compare_stored_def)
  have dispatch_old:
    "compare_stored (OldFormat fv) u = compare_features_simple (Some fv) (Some u) None"
    by (simp add: compare_stored_def)
  have nobody: "gallery_scan pickles u = ''unknown_person''"
    if none: "\<forall>fname sd. (fname, Pickle sd) \<in> set pickles \<and> endswith fname ''.pickle''
                       \<longrightarrow> \<not> fst (compare_stored sd u)"
  proof (rule gallery_scan_no_candidate)
    show "\<forall>entry\<in>set pickles. candidate u entry = None"
    proof
      fix entry assume mem: "entry \<in> set pickles"
      obtain fname content where e: "entry = (fname, content)" by (cases entry)
      from mem none show "candidate u entry = None"
        unfolding e candidate_None_iff by blast
    qed
  qed
  have somebody: "\<exists>fname sd. (fname, Pickle sd) \<in> set pickles \<and> endswith fname ''.pickle''
                    \<and> fst (compare_stored sd u)
                    \<and> gallery_scan pickles u = drop_last7 fname
                    \<and> (\<forall>fname' sd'. (fname', Pickle sd') \<in> set pickles
                             \<and> endswith fname' ''.pickle'' \<and> fst (compare_stored sd' u)
                           \<longrightarrow> snd (compare_stored sd' u) \<le> snd (compare_stored sd u))"
    if some: "\<exists>fname sd. (fname, Pickle sd) \<in> set pickles \<and> endswith fname ''.pickle''
                       \<and> fst (compare_stored sd u)"
  proof -
    from some obtain f0 sd0 where m0: "(f0, Pickle sd0) \<in> set pickles"
      and c0: "candidate u (f0, Pickle sd0)
                 = Some (drop_last7 f0, snd (compare_stored sd0 u))"
      unfolding candidate_Some_iff by blast
    from gallery_scan_best_candidate[OF m0 c0]
    obtain entry k s where mem: "entry \<in> set pickles"
      and c: "candidate u entry = Some (k, s)"
      and top: "\<forall>entry'\<in>set pickles. \<forall>k' s'. candidate u entry' = Some (k', s') \<longrightarrow> s' \<le> s"
      and res: "gallery_scan pickles u = (if k = [] then ''unknown_person'' else k)"
      by blast
    obtain fname content where e: "entry = (fname, content)" by (cases entry)
    from c obtain sd where ends: "endswith fname ''.pickle''"
      and content: "content = Pickle sd" and m: "fst (compare_stored sd u)"
      and k: "k = drop_last7 fname" and s: "s = snd (compare_stored sd u)"
      unfolding e candidate_Some_iff by blast
    from keys mem ends have "drop_last7 fname \<noteq> []" unfolding e by auto
    with res k have r: "gallery_scan pickles u = drop_last7 fname" by simp
    have best: "snd (compare_stored sd' u) \<le> snd (compare_stored sd u)"
      if "(fname', Pickle sd') \<in> set pickles" "endswith fname' ''.pickle''"
         "fst (compare_stored sd' u)" for fname' sd'
    proof -
      from that(2,3) have "candidate u (fname', Pickle sd')
          = Some (drop_last7 fname', snd (compare_stored sd' u))"
        unfolding candidate_Some_iff by blast
      with top that(1) show ?thesis unfolding s by blast
    qed
    from mem ends m r best show ?thesis unfolding e content by blast
  qed
  from dispatch_new dispatch_old nobody somebody show ?thesis by blast
qed

theorem gallery_scan_best_match_witness:
  "gallery_scan
     [(''bob.pickle'', Pickle (OldFormat [0, 1])),
      (''notes.txt'', Pickle (OldFormat [1, 0])),
      (''carol.pickle'',
         Pickle (NewFormat \<lparr> ensemble_features = [1, 0],
                              individual_features = [[1, 0], [1, 0], [1, 0]],
                              num_photos = 3, training_quality = 18 / 25 \<rparr>)),
      (''alice.pickle'', Pickle (OldFormat [1, 0]))] [1, 0] = ''alice''
   \<and> gallery_scan [(''bob.pickle'', Pickle (OldFormat [0, 1]))] [1, 0] = ''unknown_person''"
proof -
  let ?carol = "NewFormat \<lparr> ensemble_features = [1, 0],
                              individual_features = [[1, 0], [1, 0], [1, 0]],
                              num_photos = 3, training_quality = 18 / 25 \<rparr>"
  let ?G = "[(''bob.pickle'', Pickle (OldFormat [0, 1])),
      (''notes.txt'', Pickle (OldFormat [1, 0])),
      (''carol.pickle'', Pickle ?carol),
      (''alice.pickle'', Pickle (OldFormat [1, 0]))]"
  let ?H = "[(''bob.pickle'', Pickle (OldFormat [0, 1]))]"
  have keysG: "\<forall>entry\<in>set ?G.
      endswith (fst entry) ''.pickle'' \<longrightarrow> drop_last7 (fst entry) \<noteq> []"
    by (simp add: drop_last7_def)
  have keysH: "\<forall>entry\<in>set ?H.
      endswith (fst entry) ''.pickle'' \<longrightarrow> drop_last7 (fst entry) \<noteq> []"
    by (simp add: drop_last7_def)
  have noneH: "\<forall>fname sd. (fname, Pickle sd) \<in> set ?H \<and> endswith fname ''.pickle''
                       \<longrightarrow> \<not> fst (compare_stored sd [1, 0])"
    by (simp add: compare_stored_orth)
  have h: "gallery_scan ?H [1, 0] = ''unknown_person''"
    using noneH
    by (rule gallery_scan_best_match
          [OF keysH, THEN conjunct2, THEN conjunct2, THEN conjunct1, THEN mp])
  have aliceG: "(''alice.pickle'', Pickle (OldFormat [1, 0])) \<in> set ?G
      \<and> endswith ''alice.pickle'' ''.pickle''
      \<and> fst (compare_stored (OldFormat [1, 0]) [1, 0])"
    by (simp add: endswith_alice compare_stored_same)
  have someG: "\<exists>fname sd. (fname, Pickle sd) \<in> set ?G \<and> endswith fname ''.pickle''
                       \<and> fst (compare_stored sd [1, 0])"
    by (intro exI[of _ "''alice.pickle''"] exI[of _ "OldFormat [1, 0]"]) (rule aliceG)
  have "\<exists>fname sd. (fname, Pickle sd) \<in> set ?G \<and> endswith fname ''.pickle''
                    \<and> fst (compare_stored sd [1, 0])
                    \<and> gallery_scan ?G [1, 0] = drop_last7 fname
                    \<and> (\<forall>fname' sd'. (fname', Pickle sd') \<in> set ?G
                             \<and> endswith fname' ''.pickle'' \<and> fst (compare_stored sd' [1, 0])
                           \<longrightarrow> snd (compare_stored sd' [1, 0])
                                 \<le> snd (compare_stored sd [1, 0]))"
    using someG
    by (rule gallery_scan_best_match
          [OF keysG, THEN conjunct2, THEN conjunct2, THEN conjunct2, THEN mp])
  then obtain fname sd where mem: "(fname, Pickle sd) \<in> set ?G"
    and ends: "endswith fname ''.pickle''"
    and m: "fst (compare_stored sd [1, 0])"
    and res: "gallery_scan ?G [1, 0] = drop_last7 fname"
    and top: "\<forall>fname' sd'. (fname', Pickle sd') \<in> set ?G
                 \<and> endswith fname' ''.pickle'' \<and> fst (compare_stored sd' [1, 0])
               \<longrightarrow> snd (compare_stored sd' [1, 0]) \<le> snd (compare_stored sd [1, 0])"
    by (elim exE conjE)
  from top[rule_format, of "''alice.pickle''" "OldFormat [1, 0]"] aliceG
  have ge: "1 \<le> snd (compare_stored sd [1, 0])"
    by (simp add: compare_stored_same)
  from mem have where_from:
    "(fname = ''bob.pickle'' \<and> sd = OldFormat [0, 1])
     \<or> (fname = ''notes.txt'' \<and> sd = OldFormat [1, 0])
     \<or> (fname = ''carol.pickle'' \<and> sd = ?carol)
     \<or> (fname = ''alice.pickle'' \<and> sd = OldFormat [1, 0])"
    by (simp only: list.set insert_iff empty_iff prod.inject file_content.inject simp_thms)
  have not_bob: "\<not> (fname = ''bob.pickle'' \<and> sd = OldFormat [0, 1])"
  proof
    assume "fname = ''bob.pickle'' \<and> sd = OldFormat [0, 1]"
    then have "sd = OldFormat [0, 1]" ..
    with m show False by (simp only: compare_stored_orth fst_conv)
  qed
  have "\<not> endswith ''notes.txt'' ''.pickle''" by (simp add: endswith_def)
  with ends have not_notes: "\<not> (fname = ''notes.txt'' \<and> sd = OldFormat [1, 0])"
    by blast
  have not_carol: "\<not> (fname = ''carol.pickle'' \<and> sd = ?carol)"
  proof
    assume "fname = ''carol.pickle'' \<and> sd = ?carol"
    then have "sd = ?carol" ..
    with ge have "(1::real) \<le> 18 / 25" by (simp only: compare_stored_three_photos snd_conv)
    then show False by simp
  qed
  from where_from not_bob not_notes not_carol have "fname = ''alice.pickle''" by blast
  with res have g: "gallery_scan ?G [1, 0] = ''alice''" by (simp add: drop_last7_alice)
  from g h show ?thesis by simp
qed

section \<open>Properties of registration\<close>

subsection \<open>Decoding and the directories\<close>

lemma decode_images_Inr:
  "decode_images dec raws i acc = Inr imgs \<Longrightarrow>
     imgs = acc @ map (\<lambda>r. the (dec r)) raws \<and> list_all (\<lambda>r. dec r \<noteq> None) raws"
proof (induction raws arbitrary: i acc)
  case Nil
  then show ?case by simp
next
  case (Cons r rest)
  show ?case
  proof (cases "dec r")
    case None
    with Cons.prems show ?thesis by simp
  next
    case (Some a)
    with Cons.prems have "decode_images dec rest (i + 1) (acc @ [a]) = Inr imgs" by simp
    from Cons.IH[OF this] Some show ?thesis by simp
  qed
qed

lemma decode_images_all:
  "list_all (\<lambda>r. dec r \<noteq> None) raws \<Longrightarrow>
     decode_images dec raws i acc = Inr (acc @ map (\<lambda>r. the (dec r)) raws)"
proof (induction raws arbitrary: i acc)
  case Nil
  then show ?case by simp
next
  case (Cons r rest)
  then show ?case by (cases "dec r") auto
qed

lemma path_exists_update:
  "path_exists p (AList.update k v dir) \<longleftrightarrow> p = k \<or> path_exists p dir"
  using AList.dom_update[of k v dir] by (auto simp: path_exists_def)

lemma path_exists_delete:
  "path_exists p (AList.delete k dir) \<longleftrightarrow> p \<noteq> k \<and> path_exists p dir"
  by (auto simp: path_exists_def AList.delete_keys)

lemma path_exists_remove_if:
  "path_exists p (remove_if_exists k dir) \<longleftrightarrow> p \<noteq> k \<and> path_exists p dir"
  by (auto simp: remove_if_exists_def path_exists_delete)

lemma path_exists_fold_remove:
  "path_exists p (fold (\<lambda>i dir. remove_if_exists (g i) dir) js dir)
     \<longleftrightarrow> p \<notin> g ` set js \<and> path_exists p dir"
  by (induction js arbitrary: dir) (auto simp: path_exists_remove_if)

lemma path_exists_save_photos:
  "path_exists p (save_photos uid imgs i dir) \<Longrightarrow>
     path_exists p dir \<or> (\<exists>j<length imgs. p = photo_name uid (i + j + 1))"
proof (induction imgs arbitrary: i dir)
  case Nil
  then show ?case by simp
next
  case (Cons img rest)
  from Cons.prems
  have "path_exists p (save_photos uid rest (i + 1)
          (AList.update (photo_name uid (i + 1)) img dir))"
    by simp
  from Cons.IH[OF this]
  consider "path_exists p (AList.update (photo_name uid (i + 1)) img dir)"
    | j where "j < length rest" "p = photo_name uid (i + 1 + j + 1)"
    by blast
  then show ?case
  proof cases
    case 1
    then have "path_exists p dir \<or> p = photo_name uid (i + 0 + 1)"
      by (auto simp: path_exists_update)
    then show ?thesis by auto
  next
    case 2
    then have "Suc j < length (img # rest)" "p = photo_name uid (i + Suc j + 1)"
      by simp_all
    then show ?thesis by blast
  qed
qed

lemma delete_update_fresh:
  "\<not> path_exists k dir \<Longrightarrow> AList.delete k (AList.update k v dir) = dir"
  by (simp add: AList.delete_update_same path_exists_def)

subsection \<open>The duplicate-face guard\<close>

lemma register_reaches_guard:
  assumes "2 \<le> length (images data)"
    and "\<not> (lower (strip (email data)) \<noteq> []
             \<and> email_exists (users_csv fs) (lower (strip (email data))))"
    and "decode_images dec (images data) 0 [] = Inr (first # others)"
    and "recognize_user_enhanced det ext (pickles_dir fs) first \<noteq> ''no_persons_found''"
    and "recognize_user_enhanced det ext (pickles_dir fs) first \<noteq> ''unknown_person''"
  shows "register det ext dec uid now data fs =
           (FaceAlreadyRegistered
              (case get_user_data (users_csv fs)
                      (recognize_user_enhanced det ext (pickles_dir fs) first) of
                 Some row \<Rightarrow> col_name row
               | None \<Rightarrow> recognize_user_enhanced det ext (pickles_dir fs) first),
            fs)"
proof -
  from assms(1) have ne: "images data \<noteq> []" and two: "\<not> length (images data) < 2"
    by auto
  show ?thesis
    unfolding register_def Let_def
    using assms(2,4,5) by (simp add: ne two assms(3))
qed

lemma example_recognize_alice:
  "recognize_user_enhanced example_detect example_extract
     [(''alice.pickle'', Pickle (OldFormat [1, 0]))] 3 = ''alice''"
  by (simp add: recognize_user_enhanced_def example_detect_def example_extract_def
      example_areas scan_alice)

lemma example_recognize_nobody:
  "recognize_user_enhanced example_detect example_extract [] 3 = ''unknown_person''"
  by (simp add: recognize_user_enhanced_def example_detect_def example_extract_def
      example_areas gallery_scan_def)

text \<open>
  Claim C5. Let the first submitted image decode, and let recognition on it, against the
  gallery as it is before the request, return a known identity (neither sentinel). Then
  registration leaves the state as it was (no pickle, photo or CSV row is written) and
  does not answer success. If moreover the request gets as far as the guard (at least two
  images, no clash of e-mail addresses, every image decodes), the answer is that the face
  is already registered, naming the matched user: the name of its CSV row, or the identity
  key itself when it has no row.
\<close>

theorem duplicate_face_rejected:
  assumes "images data = raw # raws"
    and "dec raw = Some first"
    and "recognize_user_enhanced det ext (pickles_dir fs) first \<noteq> ''no_persons_found''"
    and "recognize_user_enhanced det ext (pickles_dir fs) first \<noteq> ''unknown_person''"
  shows "snd (register det ext dec uid now data fs) = fs
     \<and> (\<forall>a b c k v q. fst (register det ext dec uid now data fs) \<noteq> Registered a b c k v q)
     \<and> (2 \<le> length (images data)
          \<and> \<not> (lower (strip (email data)) \<noteq> []
                  \<and> email_exists (users_csv fs) (lower (strip (email data))))
          \<and> list_all (\<lambda>r. dec r \<noteq> None) (images data) \<longrightarrow>
          fst (register det ext dec uid now data fs) =
            FaceAlreadyRegistered
              (case get_user_data (users_csv fs)
                      (recognize_user_enhanced det ext (pickles_dir fs) first) of
                 Some row \<Rightarrow> col_name row
               | None \<Rightarrow> recognize_user_enhanced det ext (pickles_dir fs) first))"
proof -
  let ?reg = "register det ext dec uid now data fs"
  let ?dup = "FaceAlreadyRegistered
              (case get_user_data (users_csv fs)
                      (recognize_user_enhanced det ext (pickles_dir fs) first) of
                 Some row \<Rightarrow> col_name row
               | None \<Rightarrow> recognize_user_enhanced det ext (pickles_dir fs) first)"
  have ne: "images data \<noteq> []" using assms(1) by simp
  have early: "?reg = (TooFewImages (length (images data)), fs)"
    if "length (images data) < 2"
    using that ne by (simp add: register_def Let_def)
  have mail: "?reg = (EmailAlreadyExists, fs)"
    if "\<not> length (images data) < 2"
      and "lower (strip (email data)) \<noteq> []
             \<and> email_exists (users_csv fs) (lower (strip (email data)))"
    using that ne by (simp add: register_def Let_def)
  have bad: "?reg = (InvalidImageData i, fs)"
    if "\<not> length (images data) < 2"
      and "\<not> (lower (strip (email data)) \<noteq> []
             \<and> email_exists (users_csv fs) (lower (strip (email data))))"
      and "decode_images dec (images data) 0 [] = Inl i" for i
    using that ne unfolding register_def Let_def by simp
  have dup: "?reg = (?dup, fs)"
    if two: "\<not> length (images data) < 2"
      and em: "\<not> (lower (strip (email data)) \<noteq> []
             \<and> email_exists (users_csv fs) (lower (strip (email data))))"
      and d: "decode_images dec (images data) 0 [] = Inr imgs" for imgs
  proof -
    from decode_images_Inr[OF d] assms(1,2) have "imgs = first # map (\<lambda>r. the (dec r)) raws"
      by simp
    with d have "decode_images dec (images data) 0 [] = Inr (first # map (\<lambda>r. the (dec r)) raws)"
      by simp
    with two em assms(3,4) show ?thesis
      by (intro register_reaches_guard) simp_all
  qed
  have cases: "?reg = (TooFewImages (length (images data)), fs)
      \<or> ?reg = (EmailAlreadyExists, fs)
      \<or> (\<exists>i. ?reg = (InvalidImageData i, fs))
      \<or> ?reg = (?dup, fs)"
  proof (cases "length (images data) < 2")
    case True
    with early show ?thesis by simp
  next
    case two: False
    show ?thesis
    proof (cases "lower (strip (email data)) \<noteq> []
             \<and> email_exists (users_csv fs) (lower (strip (email data)))")
      case True
      with mail two show ?thesis by simp
    next
      case em: False
      show ?thesis
      proof (cases "decode_images dec (images data) 0 [] ")
        case (Inl i)
        with bad[OF two em] show ?thesis by blast
      next
        case (Inr imgs)
        with dup[OF two em] show ?thesis by blast
      qed
    qed
  qed
  have unchanged: "snd ?reg = fs" using cases by auto
  have rejected: "\<forall>a b c k v q. fst ?reg \<noteq> Registered a b c k v q" using cases by auto
  have surfaced: "fst ?reg = ?dup"
    if "2 \<le> length (images data)
          \<and> \<not> (lower (strip (email data)) \<noteq> []
                  \<and> email_exists (users_csv fs) (lower (strip (email data))))
          \<and> list_all (\<lambda>r. dec r \<noteq> None) (images data)"
  proof -
    from that have two: "\<not> length (images data) < 2" by simp
    from that decode_images_all[of dec "images data" 0 "[]"]
    have "decode_images dec (images data) 0 [] = Inr (map (\<lambda>r. the (dec r)) (images data))"
      by simp
    from dup[OF two _ this] that show ?thesis by simp
  qed
  from unchanged rejected surfaced show ?thesis by blast
qed

theorem duplicate_face_rejected_witness:
  "register example_detect example_extract Some ''1a2b3c4d'' ''today''
      example_request example_enrolled
     = (FaceAlreadyRegistered ''Alice'', example_enrolled)"
proof -
  have rec: "recognize_user_enhanced example_detect example_extract
      (pickles_dir example_enrolled) 3 = ''alice''"
    by (simp add: example_enrolled_def example_recognize_alice)
  have a: "recognize_user_enhanced example_detect example_extract
      (pickles_dir example_enrolled) 3 \<noteq> ''no_persons_found''"
    unfolding rec by simp
  have b: "recognize_user_enhanced example_detect example_extract
      (pickles_dir example_enrolled) 3 \<noteq> ''unknown_person''"
    unfolding rec by simp
  have i: "images example_request = 3 # [4]" by (simp add: example_request_def)
  have d: "Some (3::nat) = Some 3" by simp
  have hyp: "2 \<le> length (images example_request)
          \<and> \<not> (lower (strip (email example_request)) \<noteq> []
                  \<and> email_exists (users_csv example_enrolled)
                        (lower (strip (email example_request))))
          \<and> list_all (\<lambda>r. Some r \<noteq> None) (images example_request)"
    by (simp add: example_request_def lower_def strip_def)
  have user: "get_user_data (users_csv example_enrolled) ''alice''
      = Some \<lparr> col_user_id = ''alice'', col_name = ''Alice'', col_email = [],
               col_phone = [], col_date_of_birth = [], col_gender = [], col_address = [],
               col_department = [], col_position = [], col_emergency_contact = [],
               col_emergency_phone = [], col_registration_date = [], col_last_login = [],
               col_login_count = 0 \<rparr>"
    by (simp add: example_enrolled_def get_user_data_def)
  from duplicate_face_rejected
         [of example_request 3 "[4]" Some 3 example_detect example_extract example_enrolled
             "''1a2b3c4d''" "''today''", OF i d a b] hyp
  have "snd (register example_detect example_extract Some ''1a2b3c4d'' ''today''
               example_request example_enrolled) = example_enrolled"
    and "fst (register example_detect example_extract Some ''1a2b3c4d'' ''today''
               example_request example_enrolled) = FaceAlreadyRegistered ''Alice''"
    by (simp_all add: rec user)
  then show ?thesis by (simp add: prod_eq_iff)
qed

subsection \<open>Clean-up after a failed save\<close>

lemma register_failed_save:
  assumes "register det ext dec uid now data fs = (FailedToSaveUserData, fs')"
  shows "\<exists>imgs first td.
           length imgs = length (images data)
           \<and> fs' = cleanup uid (length imgs)
                  (fs \<lparr> pickles_dir :=
                          AList.update (pickle_name uid) (Pickle (NewFormat td))
                            (pickles_dir fs),
                        photos_dir :=
                          AList.update (first_photo_name uid) first
                            (save_photos uid imgs 0 (photos_dir fs)) \<rparr>)"
proof -
  let ?reg = "register det ext dec uid now data fs"
  from assms have ne: "images data \<noteq> []"
    by (auto simp: register_def Let_def)
  from assms ne have two: "\<not> length (images data) < 2"
    by (auto simp: register_def Let_def)
  from assms ne two have em: "\<not> (lower (strip (email data)) \<noteq> []
             \<and> email_exists (users_csv fs) (lower (strip (email data))))"
    by (auto simp: register_def Let_def)
  note unfold = register_def Let_def if_not_P[OF em]
  obtain imgs where d: "decode_images dec (images data) 0 [] = Inr imgs"
  proof (cases "decode_images dec (images data) 0 []")
    case (Inl i)
    with assms ne two show ?thesis by (simp add: unfold)
  next
    case (Inr imgs)
    with that show ?thesis .
  qed
  from decode_images_Inr[OF d] have len: "length imgs = length (images data)" by simp
  obtain first others where imgs: "imgs = first # others"
  proof (cases imgs)
    case Nil
    with assms ne two d show ?thesis by (simp add: unfold)
  next
    case (Cons first others)
    with that show ?thesis .
  qed
  have unknown: "\<not> (recognize_user_enhanced det ext (pickles_dir fs) first
                      \<noteq> ''no_persons_found''
                    \<and> recognize_user_enhanced det ext (pickles_dir fs) first
                      \<noteq> ''unknown_person'')"
  proof
    assume "recognize_user_enhanced det ext (pickles_dir fs) first \<noteq> ''no_persons_found''
        \<and> recognize_user_enhanced det ext (pickles_dir fs) first \<noteq> ''unknown_person''"
    with assms ne two d imgs show False by (simp add: unfold)
  qed
  note unfold2 = unfold if_not_P[OF unknown]
  obtain r where x: "extract_features_from_multiple_images det ext (first # others) = Inr r"
  proof (cases "extract_features_from_multiple_images det ext (first # others)")
    case (Inl e)
    with assms ne two d imgs show ?thesis by (simp add: unfold2)
  next
    case (Inr r)
    with that show ?thesis .
  qed
  obtain tdo valid where r: "r = (tdo, valid)" by (cases r)
  obtain td where td: "tdo = Some td"
  proof (cases tdo)
    case None
    with assms ne two d imgs x r show ?thesis by (simp add: unfold2)
  next
    case (Some td)
    with that show ?thesis .
  qed
  from assms ne two d imgs x r td
  have "fs' = cleanup uid (length imgs)
                  (fs \<lparr> pickles_dir :=
                          AList.update (pickle_name uid) (Pickle (NewFormat td))
                            (pickles_dir fs),
                        photos_dir :=
                          AList.update (first_photo_name uid) first
                            (save_photos uid imgs 0 (photos_dir fs)) \<rparr>)"
    by (simp add: unfold2 split: prod.splits bool.splits)
  with len show ?thesis by blast
qed

lemma example_failed_run:
  "fst (register example_detect example_extract Some ''1a2b3c4d'' ''today''
      example_request example_unreadable) = FailedToSaveUserData"
  by (simp add: register_def Let_def example_request_def example_unreadable_def
      lower_def strip_def example_recognize_nobody
      extract_features_from_multiple_images_def collect_features_eq map_filter_simps
      example_image_features np_mean_axis0_def save_user_data_def)

text \<open>
  Claim C10. The only way to the answer \<^verbatim>\<open>'Failed to save user data.'\<close> is
  through the writing of the pickle and the photos followed by a failing
  \<^verbatim>\<open>save_user_data\<close>. In the state left behind, the pickle of the new identity,
  its first photo and each of its numbered photos do not exist; no file exists that did
  not exist before the request; every other pickle is as it was, and the whole gallery is
  as it was when the new identity had no pickle before; the CSV file is untouched.
\<close>

theorem failed_save_is_cleaned_up:
  assumes "register det ext dec uid now data fs = (FailedToSaveUserData, fs')"
  shows "\<not> path_exists (pickle_name uid) (pickles_dir fs')
     \<and> \<not> path_exists (first_photo_name uid) (photos_dir fs')
     \<and> (\<forall>i<length (images data). \<not> path_exists (photo_name uid (i + 1)) (photos_dir fs'))
     \<and> (\<forall>p. path_exists p (pickles_dir fs') \<longrightarrow> path_exists p (pickles_dir fs))
     \<and> (\<forall>p. path_exists p (photos_dir fs') \<longrightarrow> path_exists p (photos_dir fs))
     \<and> (\<forall>p. p \<noteq> pickle_name uid \<longrightarrow> map_of (pickles_dir fs') p = map_of (pickles_dir fs) p)
     \<and> (\<not> path_exists (pickle_name uid) (pickles_dir fs) \<longrightarrow> pickles_dir fs' = pickles_dir fs)
     \<and> users_csv fs' = users_csv fs"
proof -
  from register_failed_save[OF assms] obtain imgs first td
    where len: "length imgs = length (images data)"
      and fs': "fs' = cleanup uid (length imgs)
                  (fs \<lparr> pickles_dir :=
                          AList.update (pickle_name uid) (Pickle (NewFormat td))
                            (pickles_dir fs),
                        photos_dir :=
                          AList.update (first_photo_name uid) first
                            (save_photos uid imgs 0 (photos_dir fs)) \<rparr>)"
    by blast
  let ?written = "AList.update (first_photo_name uid) first
                    (save_photos uid imgs 0 (photos_dir fs))"
  have pk: "pickles_dir fs' =
      AList.delete (pickle_name uid)
        (AList.update (pickle_name uid) (Pickle (NewFormat td)) (pickles_dir fs))"
    by (simp add: fs' cleanup_def Let_def path_exists_update)
  have ph: "photos_dir fs' =
      remove_if_exists (first_photo_name uid)
        (fold (\<lambda>i dir. remove_if_exists (photo_name uid (i + 1)) dir) [0..<length imgs]
           ?written)"
    by (simp add: fs' cleanup_def Let_def path_exists_update)
  have csv: "users_csv fs' = users_csv fs"
    by (simp add: fs' cleanup_def Let_def path_exists_update)
  have c1: "\<not> path_exists (pickle_name uid) (pickles_dir fs')"
    by (simp add: pk path_exists_delete)
  have c2: "\<not> path_exists (first_photo_name uid) (photos_dir fs')"
    by (simp add: ph path_exists_remove_if)
  have c3: "\<forall>i<length (images data). \<not> path_exists (photo_name uid (i + 1)) (photos_dir fs')"
    by (auto simp: ph path_exists_remove_if path_exists_fold_remove len)
  have c4: "\<forall>p. path_exists p (pickles_dir fs') \<longrightarrow> path_exists p (pickles_dir fs)"
    by (auto simp: pk path_exists_delete path_exists_update)
  have c5: "\<forall>p. path_exists p (photos_dir fs') \<longrightarrow> path_exists p (photos_dir fs)"
  proof (intro allI impI)
    fix p
    assume "path_exists p (photos_dir fs')"
    then have a: "p \<noteq> first_photo_name uid"
      and b: "p \<notin> (\<lambda>i. photo_name uid (i + 1)) ` set [0..<length imgs]"
      and c: "path_exists p ?written"
      by (simp_all add: ph path_exists_remove_if path_exists_fold_remove)
    from c a have "path_exists p (save_photos uid imgs 0 (photos_dir fs))"
      by (simp add: path_exists_update)
    from path_exists_save_photos[OF this] b show "path_exists p (photos_dir fs)"
      by auto
  qed
  have c6: "\<forall>p. p \<noteq> pickle_name uid \<longrightarrow> map_of (pickles_dir fs') p = map_of (pickles_dir fs) p"
    by (simp add: pk AList.delete_conv' AList.update_conv')
  have c7: "\<not> path_exists (pickle_name uid) (pickles_dir fs) \<longrightarrow> pickles_dir fs' = pickles_dir fs"
    by (simp add: pk delete_update_fresh)
  from c1 c2 c3 c4 c5 c6 c7 csv show ?thesis by blast
qed

theorem failed_save_is_cleaned_up_witness:
  "fst (register example_detect example_extract Some ''1a2b3c4d'' ''today''
          example_request example_unreadable) = FailedToSaveUserData
   \<and> snd (register example_detect example_extract Some ''1a2b3c4d'' ''today''
          example_request example_unreadable) = example_unreadable"
proof -
  let ?reg = "register example_detect example_extract Some ''1a2b3c4d'' ''today''
          example_request example_unreadable"
  have run: "?reg = (FailedToSaveUserData, snd ?reg)"
    using example_failed_run by (simp add: prod_eq_iff)
  have fresh: "\<not> path_exists (pickle_name ''1a2b3c4d'') (pickles_dir example_unreadable)"
    by (simp add: example_unreadable_def path_exists_def)
  from failed_save_is_cleaned_up[OF run] fresh
  have pk: "pickles_dir (snd ?reg) = pickles_dir example_unreadable"
    and ph: "\<forall>p. path_exists p (photos_dir (snd ?reg))
               \<longrightarrow> path_exists p (photos_dir example_unreadable)"
    and csv: "users_csv (snd ?reg) = users_csv example_unreadable"
    by blast+
  from ph have "photos_dir (snd ?reg) = []"
    by (cases "photos_dir (snd ?reg)") (auto simp: example_unreadable_def path_exists_def)
  with pk csv have "snd ?reg = example_unreadable"
    by (simp add: example_unreadable_def)
  with example_failed_run show ?thesis by simp
qed

end
